theory Spec2Isabelle
  imports Main "HOL-Library.Word"
begin

section \<open>The per-CPU frequency-capping core of \<open>mi_thermal_interface.c\<close>\<close>

text \<open>
  The development embeds the frequency-constraint table of
  \<open>drivers/thermal/mi_thermal_interface.c\<close>: the ladder builder
  (\<open>find_next_max\<close> and the fill loop of \<open>cpu_thermal_init\<close>), the level
  scan and its application (\<open>cpu_limits_set_level\<close>, \<open>cpufreq_set_level\<close>),
  the sysfs entry point \<open>cpu_limits_store\<close>, initialisation and teardown.

  Frequencies are \<open>u32\<close>, hence 32-bit words compared unsigned. The fields
  \<open>cpufreq_state\<close> and \<open>max_level\<close> are \<open>unsigned int\<close> indices bounded by
  the number of table entries; they are natural numbers here. Calls that
  leave the module (the frequency-QoS requests, \<open>cpufreq_cpu_get\<close>, the
  allocator) are parameters collected in a record; every call that reaches
  the QoS layer is appended, with its return code, to a chronological trace,
  and so is every change of the device list's membership. Console output
  (\<open>pr_err\<close>, \<open>pr_warn\<close>, \<open>WARN_ON\<close>) and the release of memory are not
  part of the model.
\<close>

subsection \<open>Data\<close>

type_synonym u32 = "32 word"

text \<open>Error numbers of the kernel (\<open>errno-base.h\<close>), returned negated.\<close>

definition ESRCH :: int where "ESRCH = 3"
definition ENOMEM :: int where "ENOMEM = 12"
definition ENODEV :: int where "ENODEV = 19"
definition EINVAL :: int where "EINVAL = 22"

text \<open>
  Modelled from the spec: the markers and the iterator of \<open>linux/cpufreq.h\<close>
  are not part of the source file. A raw table is the array a policy points
  to; iteration stops at the first entry equal to \<open>CPUFREQ_TABLE_END\<close>
  (\<open>~1u\<close>), and \<open>cpufreq_for_each_valid_entry\<close> skips the entries equal to
  \<open>CPUFREQ_ENTRY_INVALID\<close> (\<open>~0u\<close>); these are the spec's valid
  frequencies.
\<close>

definition CPUFREQ_ENTRY_INVALID :: u32 where
  "CPUFREQ_ENTRY_INVALID = - 1"

definition CPUFREQ_TABLE_END :: u32 where
  "CPUFREQ_TABLE_END = - 2"

definition valid_entries :: "u32 list \<Rightarrow> u32 list" where
  "valid_entries table =
     filter (\<lambda>f. f \<noteq> CPUFREQ_ENTRY_INVALID)
       (takeWhile (\<lambda>f. f \<noteq> CPUFREQ_TABLE_END) table)"

text \<open>
  \<open>struct cpufreq_policy\<close>, as far as the module reads it: the policy's
  CPU and its raw table (\<open>None\<close> for a null pointer).
\<close>

record cpufreq_policy =
  cpu :: u32
  policy_freq_table :: "u32 list option"

text \<open>
  Modelled from the spec: \<open>cpufreq_table_count_valid_entries\<close> of
  \<open>linux/cpufreq.h\<close> is not part of the source file; it answers 0 for a
  policy without a table and counts the valid entries otherwise.
\<close>

definition cpufreq_table_count_valid_entries :: "cpufreq_policy \<Rightarrow> nat" where
  "cpufreq_table_count_valid_entries pol =
     (case policy_freq_table pol of
        None \<Rightarrow> 0
      | Some table \<Rightarrow> length (valid_entries table))"

text \<open>
  \<open>struct cpufreq_device\<close>. The field \<open>id\<close> is called \<open>dev_id\<close>; it is an
  \<open>int\<close> assigned from the \<open>unsigned int\<close> \<open>policy->cpu\<close> and only ever
  compared with an \<open>unsigned int\<close>, so it is kept as the 32-bit pattern.
  \<open>qos_req\<close> points to the per-CPU request object and is represented by the
  number of that CPU. The list node is the position in \<open>cpufreq_dev_list\<close>.
\<close>

record cpufreq_device =
  dev_id :: u32
  cpufreq_state :: nat
  max_level :: nat
  freq_table :: "u32 list"
  policy :: cpufreq_policy
  qos_req :: nat

datatype event =
    Qos_add nat u32 int
  | Qos_update nat u32 int
  | Qos_remove nat
  | List_add cpufreq_device
  | List_del cpufreq_device

record sys =
  cpufreq_dev_list :: "cpufreq_device list"
  trace :: "event list"

text \<open>
  The environment. The QoS calls answer with the kernel's convention
  (negative on failure); their answer may depend on everything that has
  happened so far, which the trace records.
\<close>

record backend =
  possible_cpus :: "nat list"
  cpufreq_cpu_get :: "nat \<Rightarrow> cpufreq_policy option"
  kzalloc_ok :: "nat \<Rightarrow> bool"
  kmalloc_array_ok :: "nat \<Rightarrow> bool"
  freq_qos_add_request :: "event list \<Rightarrow> nat \<Rightarrow> u32 \<Rightarrow> int"
  freq_qos_update_request :: "event list \<Rightarrow> nat \<Rightarrow> u32 \<Rightarrow> int"

subsection \<open>Applying a level\<close>

definition cpufreq_set_level ::
  "backend \<Rightarrow> cpufreq_device \<Rightarrow> nat \<Rightarrow> event list \<Rightarrow> int \<times> cpufreq_device \<times> event list"
where
  "cpufreq_set_level B cdev state tr =
     (if state > max_level cdev then (- EINVAL, cdev, tr)
      else if cpufreq_state cdev = state then (0, cdev, tr)
      else
        (let cdev' = cdev\<lparr>cpufreq_state := state\<rparr>;
             f = freq_table cdev' ! state;
             r = freq_qos_update_request B tr (qos_req cdev') f
         in (r, cdev', tr @ [Qos_update (qos_req cdev') f r])))"

text \<open>
  The inner loop of \<open>cpu_limits_set_level\<close>: the index at which the loop
  calls \<open>cpufreq_set_level\<close> and breaks, or \<open>None\<close> when the loop runs
  past \<open>max_level\<close> without a call.
\<close>

function find_level :: "cpufreq_device \<Rightarrow> u32 \<Rightarrow> nat \<Rightarrow> nat option" where
  "find_level cdev max_freq level =
     (if level \<le> max_level cdev then
        (if max_freq \<ge> freq_table cdev ! level then Some level
         else find_level cdev max_freq (Suc level))
      else None)"
  by pat_completeness auto
termination
  by (relation "measure (\<lambda>(cdev, max_freq, level). Suc (max_level cdev) - level)") auto

declare find_level.simps [simp del]

definition limit_device ::
  "backend \<Rightarrow> cpufreq_device \<Rightarrow> u32 \<Rightarrow> event list \<Rightarrow> cpufreq_device \<times> event list"
where
  "limit_device B cdev max_freq tr =
     (case find_level cdev max_freq 0 of
        None \<Rightarrow> (cdev, tr)
      | Some level \<Rightarrow> snd (cpufreq_set_level B cdev level tr))"

text \<open>
  The outer loop: the first entry of the list whose id is the requested CPU
  is treated, then the loop breaks.
\<close>

fun limit_list ::
  "backend \<Rightarrow> cpufreq_device list \<Rightarrow> u32 \<Rightarrow> u32 \<Rightarrow> event list
     \<Rightarrow> cpufreq_device list \<times> event list"
where
  "limit_list B [] c max_freq tr = ([], tr)"
| "limit_list B (d # ds) c max_freq tr =
     (if dev_id d = c then
        (let (d', tr') = limit_device B d max_freq tr in (d' # ds, tr'))
      else
        (let (ds', tr') = limit_list B ds c max_freq tr in (d # ds', tr')))"

definition cpu_limits_set_level :: "backend \<Rightarrow> u32 \<Rightarrow> u32 \<Rightarrow> sys \<Rightarrow> sys" where
  "cpu_limits_set_level B c max_freq s =
     (let (ds, tr) = limit_list B (cpufreq_dev_list s) c max_freq (trace s)
      in s\<lparr>cpufreq_dev_list := ds, trace := tr\<rparr>)"

text \<open>
  \<open>cpu_limits_store\<close>: the result of \<open>sscanf(buf, "cpu%u %u", ...)\<close> is a
  parameter, \<open>None\<close> when fewer than two fields were converted. The
  length \<open>len\<close> is a \<open>size_t\<close> and the result an \<open>ssize_t\<close>, both 64
  bits wide on the 64-bit targets of this tree; \<open>return len\<close> converts the
  one to the other and keeps the bit pattern, so a length from \<open>2^63\<close> on
  comes back negative.
\<close>

definition cpu_limits_store ::
  "backend \<Rightarrow> (string \<Rightarrow> (u32 \<times> u32) option) \<Rightarrow> string \<Rightarrow> 64 word \<Rightarrow> sys
     \<Rightarrow> int \<times> sys"
where
  "cpu_limits_store B sscanf buf len s =
     (case sscanf buf of
        None \<Rightarrow> (- EINVAL, s)
      | Some (c, mx) \<Rightarrow> (sint len, cpu_limits_set_level B c mx s))"

subsection \<open>Building the ladder\<close>

definition find_next_max :: "u32 list \<Rightarrow> u32 \<Rightarrow> u32" where
  "find_next_max table prev_max =
     fold (\<lambda>pos mx. if pos > mx \<and> pos < prev_max then pos else mx)
       (valid_entries table) 0"

text \<open>
  The fill loop of \<open>cpu_thermal_init\<close>, from index \<open>i\<close> on, with the
  frequency found in the previous round.
\<close>

function fill_freq_table :: "u32 list \<Rightarrow> nat \<Rightarrow> nat \<Rightarrow> u32 \<Rightarrow> u32 list" where
  "fill_freq_table table mxl i freq =
     (if i \<le> mxl then
        (let freq' = find_next_max table freq
         in freq' # fill_freq_table table mxl (Suc i) freq')
      else [])"
  by pat_completeness auto
termination
  by (relation "measure (\<lambda>(table, mxl, i, freq). Suc mxl - i)") auto

declare fill_freq_table.simps [simp del]

text \<open>
  The table of a policy with \<open>n > 0\<close> valid entries: \<open>max_level = n - 1\<close>,
  and the scan starts from \<open>freq = -1\<close>.
\<close>

definition build_freq_table :: "u32 list \<Rightarrow> u32 list" where
  "build_freq_table table =
     fill_freq_table table (length (valid_entries table) - 1) 0 (- 1)"

subsection \<open>Initialisation and teardown\<close>

text \<open>
  The entry of CPU \<open>c\<close> as \<open>cpu_thermal_init\<close> fills it in before the
  request is registered; \<open>kzalloc\<close> leaves \<open>cpufreq_state\<close> at 0. It is
  built only for a policy with a valid entry, hence with a table.
\<close>

definition new_device :: "nat \<Rightarrow> cpufreq_policy \<Rightarrow> cpufreq_device" where
  "new_device c pol =
     (let i = cpufreq_table_count_valid_entries pol
      in \<lparr>dev_id = cpu pol, cpufreq_state = 0, max_level = i - 1,
          freq_table = fill_freq_table (the (policy_freq_table pol)) (i - 1) 0 (- 1),
          policy = pol, qos_req = c\<rparr>)"

fun cpu_thermal_init_loop :: "backend \<Rightarrow> nat list \<Rightarrow> int \<Rightarrow> sys \<Rightarrow> int \<times> sys" where
  "cpu_thermal_init_loop B [] ret s = (ret, s)"
| "cpu_thermal_init_loop B (c # cs) ret s =
     (case cpufreq_cpu_get B c of
        None \<Rightarrow> (- ESRCH, s)
      | Some pol \<Rightarrow>
          if cpufreq_table_count_valid_entries pol = 0 then (- ENODEV, s)
          else if \<not> kzalloc_ok B c then (- ENOMEM, s)
          else if \<not> kmalloc_array_ok B c then (- ENOMEM, s)
          else
            (let cdev = new_device c pol;
                 ret' = freq_qos_add_request B (trace s) (qos_req cdev) (freq_table cdev ! 0);
                 tr' = trace s @ [Qos_add (qos_req cdev) (freq_table cdev ! 0) ret']
             in if ret' < 0 then (ret', s\<lparr>trace := tr'\<rparr>)
                else cpu_thermal_init_loop B cs ret'
                       (s\<lparr>cpufreq_dev_list := cdev # cpufreq_dev_list s,
                          trace := tr' @ [List_add cdev]\<rparr>)))"

text \<open>
  \<open>ret0\<close> is the indeterminate initial content of the local \<open>ret\<close>, which
  is what the function returns when the loop body never runs.
\<close>

definition cpu_thermal_init :: "backend \<Rightarrow> int \<Rightarrow> sys \<Rightarrow> int \<times> sys" where
  "cpu_thermal_init B ret0 s = cpu_thermal_init_loop B (possible_cpus B) ret0 s"

text \<open>
  The module's init function calls \<open>cpu_thermal_init\<close> as a statement and
  ends with \<open>return 0\<close>; the steps in between set up the sysfs node and the
  notifiers and do not touch the device list.
\<close>

definition mi_thermal_interface_init :: "backend \<Rightarrow> int \<Rightarrow> sys \<Rightarrow> int \<times> sys" where
  "mi_thermal_interface_init B ret0 s = (0, snd (cpu_thermal_init B ret0 s))"

text \<open>
  \<open>destory_thermal_cpu\<close> walks the list with the safe iterator: each entry
  has its request removed from the QoS layer and is then unlinked, so the
  loop continues on the entries that are left.
\<close>

fun destroy_loop ::
  "cpufreq_device list \<Rightarrow> event list \<Rightarrow> cpufreq_device list \<times> event list"
where
  "destroy_loop [] tr = ([], tr)"
| "destroy_loop (priv # rest) tr =
     destroy_loop rest (tr @ [Qos_remove (qos_req priv), List_del priv])"

definition destory_thermal_cpu :: "sys \<Rightarrow> sys" where
  "destory_thermal_cpu s =
     (let (ds, tr) = destroy_loop (cpufreq_dev_list s) (trace s)
      in s\<lparr>cpufreq_dev_list := ds, trace := tr\<rparr>)"

subsection \<open>Notions used in the statements\<close>

text \<open>
  A ladder in the sense of the specification: as many slots as
  \<open>max_level\<close> announces, strictly descending.
\<close>

definition ladder_ok :: "cpufreq_device \<Rightarrow> bool" where
  "ladder_ok cdev \<longleftrightarrow>
     length (freq_table cdev) = Suc (max_level cdev) \<and> sorted_wrt (>) (freq_table cdev)"

text \<open>The invariant of an entry: the level indexes an existing slot.\<close>

definition dev_inv :: "cpufreq_device \<Rightarrow> bool" where
  "dev_inv cdev \<longleftrightarrow>
     length (freq_table cdev) = Suc (max_level cdev) \<and> cpufreq_state cdev \<le> max_level cdev"

text \<open>The entry a capping call for CPU \<open>c\<close> works on, if there is one.\<close>

definition find_dev :: "cpufreq_device list \<Rightarrow> u32 \<Rightarrow> cpufreq_device option" where
  "find_dev ds c = List.find (\<lambda>d. dev_id d = c) ds"

text \<open>The valid frequencies other than 0, and those of them below a bound.\<close>

definition real_freqs :: "u32 list \<Rightarrow> u32 set" where
  "real_freqs table = set (filter (\<lambda>f. f \<noteq> 0) (valid_entries table))"

definition below :: "u32 list \<Rightarrow> u32 \<Rightarrow> u32 set" where
  "below table p = set (filter (\<lambda>f. f \<noteq> 0 \<and> f < p) (valid_entries table))"

text \<open>The number of ceiling updates that reached the QoS layer.\<close>

fun is_qos_update :: "event \<Rightarrow> bool" where
  "is_qos_update (Qos_update r f x) = True"
| "is_qos_update e = False"

definition qos_updates :: "event list \<Rightarrow> nat" where
  "qos_updates tr = length (filter is_qos_update tr)"

text \<open>
  The requests registered with the QoS layer after an event, and the
  property of a sequence of events that no entry is unlinked while its
  request is registered.
\<close>

fun slot_step :: "event \<Rightarrow> nat set \<Rightarrow> nat set" where
  "slot_step (Qos_add r f x) R = (if x < 0 then R else insert r R)"
| "slot_step (Qos_remove r) R = R - {r}"
| "slot_step e R = R"

fun removal_ok :: "nat set \<Rightarrow> event list \<Rightarrow> bool" where
  "removal_ok R [] = True"
| "removal_ok R (List_del d # es) = (qos_req d \<notin> R \<and> removal_ok R es)"
| "removal_ok R (e # es) = removal_ok (slot_step e R) es"

text \<open>
  What initialisation promises of an entry it has added: level 0, a table
  of \<open>max_level + 1\<close> slots built from the policy's raw table, the highest
  valid frequency in slot 0, and a successful registration of the entry's
  request with that frequency somewhere in the trace.
\<close>

fun is_seed :: "cpufreq_device \<Rightarrow> event \<Rightarrow> bool" where
  "is_seed d (Qos_add r f x) = (r = qos_req d \<and> f = freq_table d ! 0 \<and> 0 \<le> x)"
| "is_seed d e = False"

definition fresh_entry :: "event list \<Rightarrow> cpufreq_device \<Rightarrow> bool" where
  "fresh_entry tr d \<longleftrightarrow>
     cpufreq_state d = 0 \<and> length (freq_table d) = Suc (max_level d)
     \<and> (case policy_freq_table (policy d) of
          None \<Rightarrow> False
        | Some table \<Rightarrow>
            valid_entries table \<noteq> [] \<and> freq_table d = build_freq_table table
            \<and> freq_table d ! 0 = Max (set (valid_entries table)))
     \<and> (\<exists>e \<in> set tr. is_seed d e)"

text \<open>A sequence of capping calls, each given by a CPU and a ceiling.\<close>

definition run_caps :: "backend \<Rightarrow> (u32 \<times> u32) list \<Rightarrow> sys \<Rightarrow> sys" where
  "run_caps B reqs s = fold (\<lambda>(c, f). cpu_limits_set_level B c f) reqs s"

text \<open>Sample inputs: the ladder of the specification's example, and a
  policy whose table lists one frequency twice.\<close>

definition example_policy :: cpufreq_policy where
  "example_policy = \<lparr>cpu = 0, policy_freq_table = Some [1500, 2000, 1000, - 2]\<rparr>"

definition example_dev :: cpufreq_device where
  "example_dev = \<lparr>dev_id = 0, cpufreq_state = 0, max_level = 2,
     freq_table = [2000, 1500, 1000], policy = example_policy, qos_req = 0\<rparr>"

definition example_sys :: sys where
  "example_sys = \<lparr>cpufreq_dev_list = [example_dev], trace = []\<rparr>"

definition dup_policy :: cpufreq_policy where
  "dup_policy = \<lparr>cpu = 0, policy_freq_table = Some [1000, 1000, - 2]\<rparr>"

definition dup_dev :: cpufreq_device where
  "dup_dev = \<lparr>dev_id = 0, cpufreq_state = 0, max_level = 1,
     freq_table = [1000, 0], policy = dup_policy, qos_req = 0\<rparr>"

definition ok_backend :: backend where
  "ok_backend = \<lparr>possible_cpus = [0],
     cpufreq_cpu_get = (\<lambda>c. if c = 0 then Some example_policy else None),
     kzalloc_ok = (\<lambda>c. True), kmalloc_array_ok = (\<lambda>c. True),
     freq_qos_add_request = (\<lambda>tr r f. 1),
     freq_qos_update_request = (\<lambda>tr r f. 1)\<rparr>"

definition dup_backend :: backend where
  "dup_backend = ok_backend\<lparr>cpufreq_cpu_get := (\<lambda>c. if c = 0 then Some dup_policy else None)\<rparr>"

definition no_policy_backend :: backend where
  "no_policy_backend = ok_backend\<lparr>cpufreq_cpu_get := (\<lambda>c. None)\<rparr>"

definition empty_sys :: sys where
  "empty_sys = \<lparr>cpufreq_dev_list = [], trace = []\<rparr>"

definition failing_backend :: backend where
  "failing_backend = ok_backend\<lparr>freq_qos_update_request := (\<lambda>tr r f. - EINVAL)\<rparr>"

section \<open>The level scan\<close>

lemma find_level_skip:
  "level \<le> i \<Longrightarrow> i \<le> max_level cdev \<Longrightarrow> freq_table cdev ! i \<le> f
     \<Longrightarrow> (\<And>j. level \<le> j \<Longrightarrow> j < i \<Longrightarrow> f < freq_table cdev ! j)
     \<Longrightarrow> find_level cdev f level = Some i"
proof (induction "i - level" arbitrary: level)
  case 0
  then have "level = i" by simp
  with 0 show ?case by (simp add: find_level.simps)
next
  case (Suc n)
  then have lt: "level < i" by simp
  then have "f < freq_table cdev ! level" using Suc.prems by simp
  then have "\<not> freq_table cdev ! level \<le> f" by simp
  moreover have "find_level cdev f (Suc level) = Some i"
    using Suc.hyps Suc.prems lt by (intro Suc.hyps(1)) auto
  ultimately show ?case using lt Suc.prems(2)
    by (subst find_level.simps) simp
qed

lemma find_level_None:
  "(\<And>j. level \<le> j \<Longrightarrow> j \<le> max_level cdev \<Longrightarrow> f < freq_table cdev ! j)
     \<Longrightarrow> find_level cdev f level = None"
proof (induction cdev f level rule: find_level.induct)
  case (1 cdev f level)
  show ?case
  proof (cases "level \<le> max_level cdev")
    case True
    then have "f < freq_table cdev ! level" using "1.prems" by simp
    then have n: "\<not> freq_table cdev ! level \<le> f" by simp
    have "find_level cdev f (Suc level) = None"
      using True n "1.prems" by (intro "1.IH") auto
    then show ?thesis using True n by (subst find_level.simps) simp
  next
    case False
    then show ?thesis by (subst find_level.simps) simp
  qed
qed

lemma find_level_Some_D:
  "find_level cdev f level = Some l \<Longrightarrow>
     level \<le> l \<and> l \<le> max_level cdev \<and> freq_table cdev ! l \<le> f
       \<and> (\<forall>j. level \<le> j \<and> j < l \<longrightarrow> f < freq_table cdev ! j)"
proof (induction cdev f level rule: find_level.induct)
  case (1 cdev f level)
  show ?case
  proof (cases "level \<le> max_level cdev")
    case True
    show ?thesis
    proof (cases "freq_table cdev ! level \<le> f")
      case t: True
      then have "l = level" using "1.prems" True by (subst (asm) find_level.simps) simp
      then show ?thesis using True t by auto
    next
      case False
      then have r: "find_level cdev f (Suc level) = Some l"
        using "1.prems" True by (subst (asm) find_level.simps) simp
      from "1.IH"[OF True False r] False show ?thesis
        by (auto simp: not_le elim: le_SucE) (metis Suc_leI le_neq_implies_less)
    qed
  next
    case False
    then show ?thesis using "1.prems" by (subst (asm) find_level.simps) simp
  qed
qed

lemma ladder_nth_less:
  "ladder_ok cdev \<Longrightarrow> i < j \<Longrightarrow> j \<le> max_level cdev
     \<Longrightarrow> freq_table cdev ! j < freq_table cdev ! i"
  using sorted_wrt_nth_less[of "(>)" "freq_table cdev" i j]
  by (simp add: ladder_ok_def)

lemma limit_list_absent:
  "find_dev ds c = None \<Longrightarrow> limit_list B ds c f tr = (ds, tr)"
  by (induction ds) (auto simp: find_dev_def split: if_splits)

lemma limit_list_noop:
  "find_dev ds c = Some d \<Longrightarrow> limit_device B d f tr = (d, tr)
     \<Longrightarrow> limit_list B ds c f tr = (ds, tr)"
  by (induction ds) (auto simp: find_dev_def split: if_splits)

text \<open>
  Claim C9. On a strictly descending ladder the scan, asked for the
  frequency stored at a valid index \<open>i\<close>, stops at exactly \<open>i\<close>.
\<close>

theorem resolve_own_frequency:
  assumes "ladder_ok cdev" and "i \<le> max_level cdev"
  shows "find_level cdev (freq_table cdev ! i) 0 = Some i"
proof (rule find_level_skip)
  fix j assume "j < i"
  then show "freq_table cdev ! i < freq_table cdev ! j"
    using assms by (simp add: ladder_nth_less)
qed (use assms in simp_all)

theorem resolve_own_frequency_witness:
  "ladder_ok example_dev \<and> 1 \<le> max_level example_dev
     \<and> freq_table example_dev ! 1 = 1500
     \<and> find_level example_dev 1500 0 = Some 1"
proof -
  have h: "ladder_ok example_dev" by (simp add: ladder_ok_def example_dev_def)
  have i: "1 \<le> max_level example_dev" by (simp add: example_dev_def)
  have v: "freq_table example_dev ! 1 = 1500" by (simp add: example_dev_def)
  show ?thesis using resolve_own_frequency[OF h i] h i v by simp
qed

text \<open>
  Claim C2. On a strictly descending ladder the scan from index 0 stops at
  the first index whose frequency does not exceed the request, and only
  there: a request at or above the highest frequency gives level 0, a
  request between two neighbouring levels gives the lower of them, and a
  request below the lowest frequency gives no index; then neither the entry
  nor the trace changes, and a capping call that works on this entry leaves
  the whole system as it was.
\<close>

theorem level_scan:
  assumes "ladder_ok cdev"
  shows "(\<forall>l. find_level cdev f 0 = Some l \<longleftrightarrow>
            l \<le> max_level cdev \<and> freq_table cdev ! l \<le> f
              \<and> (\<forall>j<l. f < freq_table cdev ! j))
    \<and> (freq_table cdev ! 0 \<le> f \<longrightarrow> find_level cdev f 0 = Some 0)
    \<and> (\<forall>i. i < max_level cdev \<and> freq_table cdev ! Suc i \<le> f \<and> f < freq_table cdev ! i
            \<longrightarrow> find_level cdev f 0 = Some (Suc i))
    \<and> (f < freq_table cdev ! max_level cdev \<longrightarrow>
          find_level cdev f 0 = None \<and> limit_device B cdev f tr = (cdev, tr)
            \<and> (\<forall>s c. find_dev (cpufreq_dev_list s) c = Some cdev \<and> trace s = tr
                  \<longrightarrow> cpu_limits_set_level B c f s = s))"
proof (intro conjI allI impI)
  fix l
  show "find_level cdev f 0 = Some l \<longleftrightarrow>
          l \<le> max_level cdev \<and> freq_table cdev ! l \<le> f \<and> (\<forall>j<l. f < freq_table cdev ! j)"
    using find_level_Some_D[of cdev f 0 l] find_level_skip[of 0 l cdev f] by auto
next
  assume "freq_table cdev ! 0 \<le> f"
  then show "find_level cdev f 0 = Some 0" by (simp add: find_level.simps)
next
  fix i
  assume a: "i < max_level cdev \<and> freq_table cdev ! Suc i \<le> f \<and> f < freq_table cdev ! i"
  show "find_level cdev f 0 = Some (Suc i)"
  proof (rule find_level_skip)
    fix j assume j: "j < Suc i"
    have "freq_table cdev ! i \<le> freq_table cdev ! j"
    proof (cases "j = i")
      case False
      then have "j < i" using j by simp
      then show ?thesis using assms a ladder_nth_less[of cdev j i] by simp
    qed simp
    then show "f < freq_table cdev ! j" using a by auto
  qed (use a in simp_all)
next
  assume b: "f < freq_table cdev ! max_level cdev"
  have all: "\<And>j. j \<le> max_level cdev \<Longrightarrow> f < freq_table cdev ! j"
  proof -
    fix j assume j: "j \<le> max_level cdev"
    have "freq_table cdev ! max_level cdev \<le> freq_table cdev ! j"
    proof (cases "j = max_level cdev")
      case False
      then have "j < max_level cdev" using j by simp
      then show ?thesis using assms ladder_nth_less[of cdev j "max_level cdev"] by simp
    qed simp
    then show "f < freq_table cdev ! j" using b by auto
  qed
  then show n: "find_level cdev f 0 = None" by (intro find_level_None) simp
  then show ld: "limit_device B cdev f tr = (cdev, tr)" by (simp add: limit_device_def)
  fix s :: sys and c
  assume "find_dev (cpufreq_dev_list s) c = Some cdev \<and> trace s = tr"
  then show "cpu_limits_set_level B c f s = s"
    using limit_list_noop[of "cpufreq_dev_list s" c cdev B f tr] ld
    by (simp add: cpu_limits_set_level_def)
qed

theorem level_scan_witness:
  "ladder_ok example_dev
    \<and> find_level example_dev 1800 0 = Some 1
    \<and> find_level example_dev 2500 0 = Some 0
    \<and> find_level example_dev 500 0 = None
    \<and> cpu_limits_set_level ok_backend 0 500 \<lparr>cpufreq_dev_list = [example_dev], trace = []\<rparr>
         = \<lparr>cpufreq_dev_list = [example_dev], trace = []\<rparr>"
proof -
  have h: "ladder_ok example_dev" by (simp add: ladder_ok_def example_dev_def)
  have t: "freq_table example_dev = [2000, 1500, 1000]" "max_level example_dev = 2"
    by (simp_all add: example_dev_def)
  have fd: "find_dev [example_dev] 0 = Some example_dev"
    by (simp add: find_dev_def example_dev_def)
  have a: "find_level example_dev 1800 0 = Some 1"
    using level_scan[OF h, of 1800 ok_backend "[]"] t by simp 
  have b: "find_level example_dev 2500 0 = Some 0"
    using level_scan[OF h, of 2500 ok_backend "[]"] t by simp
  have c: "find_level example_dev 500 0 = None
     \<and> cpu_limits_set_level ok_backend 0 500 \<lparr>cpufreq_dev_list = [example_dev], trace = []\<rparr>
         = \<lparr>cpufreq_dev_list = [example_dev], trace = []\<rparr>"
    using level_scan[OF h, of 500 ok_backend "[]"] t fd by simp
  show ?thesis using h a b c by simp
qed

section \<open>The ladder builder\<close>

lemma fold_next_max:
  "fold (\<lambda>pos mx. if pos > mx \<and> pos < p then pos else mx) xs (m::u32)
     = Max (insert m {f \<in> set xs. f < p})"
proof (induction xs arbitrary: m)
  case Nil
  then show ?case by simp
next
  case (Cons x xs)
  let ?S = "{f \<in> set xs. f < p}"
  have fin: "finite ?S" by simp
  show ?case
  proof (cases "x < p")
    case True
    then have eq: "{f \<in> set (x # xs). f < p} = insert x ?S" by auto
    have ite: "(if m < x then x else m) = max m x" by (auto simp: max_def)
    have "Max (insert (max m x) ?S) = Max (insert m (insert x ?S))"
    proof (cases "?S = {}")
      case True
      show ?thesis unfolding True by simp
    next
      case False
      then show ?thesis using fin by (simp add: max.assoc)
    qed
    then show ?thesis using True Cons.IH[of "max m x"] eq ite by simp
  next
    case False
    then have "{f \<in> set (x # xs). f < p} = ?S" by auto
    then show ?thesis using False Cons.IH by simp
  qed
qed

lemma find_next_max_Max:
  "find_next_max table p = Max (insert 0 {f \<in> set (valid_entries table). f < p})"
  unfolding find_next_max_def by (rule fold_next_max)

lemma below_alt: "below table p = {f \<in> real_freqs table. f < p}"
  by (auto simp: below_def real_freqs_def)

lemma finite_below [simp]: "finite (below table p)"
  by (simp add: below_def)

lemma find_next_max_empty:
  assumes "below table p = {}"
  shows "find_next_max table p = 0"
proof -
  have "{f \<in> set (valid_entries table). f < p} \<subseteq> {0}"
    using assms by (auto simp: below_def)
  then have "insert 0 {f \<in> set (valid_entries table). f < p} = {0}" by auto
  then show ?thesis unfolding find_next_max_Max by (simp only: Max_singleton)
qed

lemma find_next_max_nonempty:
  assumes "below table p \<noteq> {}"
  shows "find_next_max table p = Max (below table p)"
proof -
  have "insert 0 {f \<in> set (valid_entries table). f < p} = insert 0 (below table p)"
    by (auto simp: below_def real_freqs_def)
  moreover have "Max (insert 0 (below table p)) = Max (below table p)"
    using assms by (simp add: max_def)
  ultimately show ?thesis by (simp add: find_next_max_Max)
qed

lemma below_Max:
  assumes "below table p \<noteq> {}"
  shows "below table (Max (below table p)) = below table p - {Max (below table p)}"
proof -
  let ?M = "Max (below table p)"
  have m: "?M \<in> below table p" using assms by simp
  have le: "\<And>x. x \<in> below table p \<Longrightarrow> x \<le> ?M" by simp
  show ?thesis
  proof (intro set_eqI iffI)
    fix x assume "x \<in> below table ?M"
    then have "x \<in> real_freqs table" "x < ?M" by (simp_all add: below_alt)
    moreover have "?M < p" using m by (simp add: below_alt)
    ultimately show "x \<in> below table p - {?M}" by (auto simp: below_alt)
  next
    fix x assume a: "x \<in> below table p - {?M}"
    then have "x \<le> ?M" "x \<noteq> ?M" using le by simp_all
    then have "x < ?M" by simp
    then show "x \<in> below table ?M" using a by (simp add: below_alt)
  qed
qed

lemma below_zero [simp]: "below table 0 = {}"
  by (auto simp: below_alt)

lemma sorted_list_of_set_snoc_Max:
  fixes S :: "u32 set"
  assumes "finite S" "S \<noteq> {}"
  shows "sorted_list_of_set S = sorted_list_of_set (S - {Max S}) @ [Max S]"
proof -
  let ?xs = "sorted_list_of_set (S - {Max S}) @ [Max S]"
  have mx: "Max S \<in> S" using assms by simp
  have "sorted ?xs" using assms mx by (auto simp: sorted_append)
  moreover have "distinct ?xs" using assms mx by auto
  moreover have "set ?xs = S"
  proof -
    have "set ?xs = insert (Max S) (S - {Max S})" using assms by simp
    also have "\<dots> = S" using mx by blast
    finally show ?thesis .
  qed
  ultimately show ?thesis
    using sorted_list_of_set.idem_if_sorted_distinct by metis
qed

lemma fill_freq_table_eq:
  "card (below table p) \<le> Suc mxl - i \<Longrightarrow>
     fill_freq_table table mxl i p =
       rev (sorted_list_of_set (below table p)) @ replicate (Suc mxl - i - card (below table p)) 0"
proof (induction table mxl i p rule: fill_freq_table.induct)
  case (1 table mxl i p)
  show ?case
  proof (cases "i \<le> mxl")
    case False
    then show ?thesis using "1.prems" by (subst fill_freq_table.simps) simp
  next
    case True
    let ?f = "find_next_max table p"
    show ?thesis
    proof (cases "below table p = {}")
      case e: True
      then have f0: "?f = 0" by (rule find_next_max_empty)
      have "fill_freq_table table mxl (Suc i) ?f = replicate (Suc mxl - Suc i) 0"
        using "1.IH"[OF True refl] f0 by simp
      then have "fill_freq_table table mxl i p = 0 # replicate (Suc mxl - Suc i) 0"
        using True f0 by (subst fill_freq_table.simps) (simp add: Let_def)
      also have "\<dots> = replicate (Suc mxl - i) 0"
        using True by (simp add: Suc_diff_le flip: replicate_Suc)
      finally show ?thesis using e by simp
    next
      case ne: False
      let ?m = "Max (below table p)"
      have fm: "?f = ?m" using ne by (rule find_next_max_nonempty)
      have bm: "below table ?m = below table p - {?m}" using ne by (rule below_Max)
      have min: "?m \<in> below table p" using ne by simp
      then have c: "card (below table ?m) = card (below table p) - 1"
        using bm by simp
      have cpos: "0 < card (below table p)" using ne by (simp add: card_gt_0_iff)
      have "card (below table ?m) \<le> Suc mxl - Suc i"
        using c "1.prems" cpos by simp
      then have rec: "fill_freq_table table mxl (Suc i) ?m =
          rev (sorted_list_of_set (below table ?m))
            @ replicate (Suc mxl - Suc i - card (below table ?m)) 0"
        using "1.IH"[OF True refl] fm by simp
      have sl: "sorted_list_of_set (below table p)
                  = sorted_list_of_set (below table ?m) @ [?m]"
        using sorted_list_of_set_snoc_Max[of "below table p"] ne bm by simp
      have n: "Suc mxl - Suc i - card (below table ?m) = Suc mxl - i - card (below table p)"
        using c cpos by simp
      have "fill_freq_table table mxl i p = ?m # fill_freq_table table mxl (Suc i) ?m"
        using True fm by (subst fill_freq_table.simps) (simp add: Let_def)
      then show ?thesis using rec sl n by simp
    qed
  qed
qed

lemma valid_entries_less:
  assumes "f \<in> set (valid_entries table)"
  shows "f < - 1"
proof -
  have "f \<noteq> - 1" using assms by (simp add: valid_entries_def CPUFREQ_ENTRY_INVALID_def)
  moreover have "f \<le> - 1" by simp
  ultimately show ?thesis by (simp add: less_le)
qed

lemma below_init: "below table (- 1) = real_freqs table"
  using valid_entries_less by (auto simp: below_def real_freqs_def)

lemma card_real_freqs_le: "card (real_freqs table) \<le> length (valid_entries table)"
proof -
  have "card (real_freqs table) \<le> card (set (valid_entries table))"
    by (rule card_mono) (auto simp: real_freqs_def)
  also have "\<dots> \<le> length (valid_entries table)" by (rule card_length)
  finally show ?thesis .
qed

lemma build_freq_table_eq:
  assumes "valid_entries table \<noteq> []"
  shows "build_freq_table table =
           rev (sorted_list_of_set (real_freqs table))
             @ replicate (length (valid_entries table) - card (real_freqs table)) 0"
proof -
  let ?n = "length (valid_entries table)"
  have n: "Suc (?n - 1) - 0 = ?n" using assms by (cases "valid_entries table") simp_all
  have "card (below table (- 1)) \<le> Suc (?n - 1) - 0"
    using card_real_freqs_le[of table] n by (simp add: below_init)
  from fill_freq_table_eq[OF this] show ?thesis
    unfolding build_freq_table_def below_init n .
qed

lemma finite_real_freqs [simp]: "finite (real_freqs table)"
  by (simp add: real_freqs_def)

lemma desc_sorted_list: 
  fixes R :: "u32 set"
  shows "sorted_wrt (>) (rev (sorted_list_of_set R))"
  by (simp add: sorted_wrt_rev)

lemma build_shape:
  assumes "valid_entries table \<noteq> []"
  shows "length (build_freq_table table) = length (valid_entries table)
    \<and> sorted_wrt (>) (take (card (real_freqs table)) (build_freq_table table))
    \<and> set (take (card (real_freqs table)) (build_freq_table table)) = real_freqs table
    \<and> drop (card (real_freqs table)) (build_freq_table table)
         = replicate (length (valid_entries table) - card (real_freqs table)) 0"
proof -
  let ?R = "real_freqs table"
  let ?xs = "rev (sorted_list_of_set ?R)"
  have len: "length ?xs = card ?R" by simp
  have eq: "build_freq_table table = ?xs @ replicate (length (valid_entries table) - card ?R) 0"
    using assms by (rule build_freq_table_eq)
  have "length (build_freq_table table) = length (valid_entries table)"
    unfolding eq using card_real_freqs_le[of table] by simp
  moreover have "take (card ?R) (build_freq_table table) = ?xs"
    unfolding eq using len by simp
  moreover have "drop (card ?R) (build_freq_table table)
      = replicate (length (valid_entries table) - card ?R) 0"
    unfolding eq using len by simp
  ultimately show ?thesis using desc_sorted_list[of ?R] by simp
qed

lemma build_distinct:
  assumes ne: "valid_entries table \<noteq> []" and d: "distinct (valid_entries table)"
  shows "sorted_wrt (>) (build_freq_table table) \<and> distinct (build_freq_table table)
    \<and> set (build_freq_table table) = set (valid_entries table)
    \<and> length (build_freq_table table) = card (set (valid_entries table))"
proof -
  let ?V = "valid_entries table"
  let ?R = "real_freqs table"
  let ?xs = "rev (sorted_list_of_set ?R)"
  have eq: "build_freq_table table = ?xs @ replicate (length ?V - card ?R) 0"
    using ne by (rule build_freq_table_eq)
  have cV: "card (set ?V) = length ?V" using d by (rule distinct_card)
  have R: "?R = set ?V - {0}" by (auto simp: real_freqs_def)
  have sx: "sorted_wrt (>) ?xs" by (rule desc_sorted_list)
  have pos: "\<And>x. x \<in> set ?xs \<Longrightarrow> 0 < x"
    by (simp add: R word_neq_0_conv)
  show ?thesis
  proof (cases "0 \<in> set ?V")
    case True
    then have "card ?R = length ?V - 1" using R cV by simp
    moreover have "0 < length ?V" using ne by simp
    ultimately have "length ?V - card ?R = 1" by arith
    then have L: "build_freq_table table = ?xs @ [0]" using eq by simp
    have "sorted_wrt (>) (?xs @ [0])" using sx pos by (simp add: sorted_wrt_append)
    moreover have "distinct (?xs @ [0])" using R by simp
    moreover have "set (?xs @ [0]) = set ?V" using R True by auto
    moreover have "length (?xs @ [0]) = card (set ?V)"
      using \<open>card ?R = length ?V - 1\<close> \<open>0 < length ?V\<close> cV by simp
    ultimately show ?thesis unfolding L by blast
  next
    case False
    then have RV: "?R = set ?V" using R by simp
    then have L: "build_freq_table table = ?xs" using eq cV by simp
    have "set ?xs = set ?V" "length ?xs = card (set ?V)" "distinct ?xs"
      using RV by simp_all
    then show ?thesis unfolding L using sx by blast
  qed
qed


text \<open>
  Claim C3, as amended. For a raw table with at least one valid entry the
  built table has one slot per valid entry, duplicates counted. Its first
  slots hold the distinct non-zero valid frequencies, strictly descending,
  each once; every slot after them holds 0. When the valid entries are
  pairwise distinct the table is strictly descending, free of duplicates,
  holds exactly the valid frequencies and is as long as their number.
\<close>

theorem build_freq_table_shape:
  assumes "valid_entries table \<noteq> []"
  shows "length (build_freq_table table) = length (valid_entries table)
    \<and> sorted_wrt (>) (take (card (real_freqs table)) (build_freq_table table))
    \<and> set (take (card (real_freqs table)) (build_freq_table table)) = real_freqs table
    \<and> drop (card (real_freqs table)) (build_freq_table table)
         = replicate (length (valid_entries table) - card (real_freqs table)) 0
    \<and> (distinct (valid_entries table) \<longrightarrow>
          sorted_wrt (>) (build_freq_table table) \<and> distinct (build_freq_table table)
          \<and> set (build_freq_table table) = set (valid_entries table)
          \<and> length (build_freq_table table) = card (set (valid_entries table)))"
  using build_shape[OF assms] build_distinct[OF assms] by blast

theorem build_freq_table_shape_witness:
  "valid_entries [1500, 2000, 1000, 2000, - 2] \<noteq> []
    \<and> card (real_freqs [1500, 2000, 1000, 2000, - 2]) = 3
    \<and> length (build_freq_table [1500, 2000, 1000, 2000, - 2]) = 4
    \<and> take 3 (build_freq_table [1500, 2000, 1000, 2000, - 2]) = [2000, 1500, 1000]
    \<and> drop 3 (build_freq_table [1500, 2000, 1000, 2000, - 2]) = [0]
    \<and> distinct (valid_entries [1500, 2000, 1000, - 2])
    \<and> build_freq_table [1500, 2000, 1000, - 2] = [2000, 1500, 1000]
    \<and> sorted_wrt (>) (build_freq_table [1500, 2000, 1000, - 2])
    \<and> length (build_freq_table [1500, 2000, 1000, - 2])
          = card (set (valid_entries [1500, 2000, 1000, - 2]))"
proof -
  have v1: "valid_entries [1500, 2000, 1000, 2000, - 2] = [1500, 2000, 1000, 2000]"
    by code_simp
  have v2: "valid_entries [1500, 2000, 1000, - 2] = [1500, 2000, 1000]" by code_simp
  have h1: "valid_entries [1500, 2000, 1000, 2000, - 2] \<noteq> []" by (simp add: v1)
  have c1: "card (real_freqs [1500, 2000, 1000, 2000, - 2]) = 3" by code_simp
  have b1: "build_freq_table [1500, 2000, 1000, 2000, - 2] = [2000, 1500, 1000, 0]"
    by code_simp
  have h2: "valid_entries [1500, 2000, 1000, - 2] \<noteq> []" by (simp add: v2)
  have d2: "distinct (valid_entries [1500, 2000, 1000, - 2])" by (simp add: v2)
  have b2: "build_freq_table [1500, 2000, 1000, - 2] = [2000, 1500, 1000]" by code_simp
  show ?thesis
    using build_freq_table_shape[OF h1] build_freq_table_shape[OF h2] h1 c1 b1 d2 b2
    by (simp add: v1 v2)
qed

theorem build_freq_table_duplicates_counterexample:
  "valid_entries [1000, 1000, 1000, - 2] \<noteq> []
    \<and> build_freq_table [1000, 1000, 1000, - 2] = [1000, 0, 0]
    \<and> \<not> sorted_wrt (>) (build_freq_table [1000, 1000, 1000, - 2])
    \<and> \<not> distinct (build_freq_table [1000, 1000, 1000, - 2])
    \<and> length (build_freq_table [1000, 1000, 1000, - 2]) = 3
    \<and> card (set (valid_entries [1000, 1000, 1000, - 2])) = 1"
  by code_simp

section \<open>Capping calls\<close>

lemma find_level_cong:
  "max_level a = max_level b \<Longrightarrow> freq_table a = freq_table b
     \<Longrightarrow> find_level a f level = find_level b f level"
proof (induction a f level rule: find_level.induct)
  case (1 cdev f level)
  show ?case
  proof (cases "level \<le> max_level cdev \<and> \<not> freq_table cdev ! level \<le> f")
    case True
    then have "find_level cdev f (Suc level) = find_level b f (Suc level)"
      using "1.IH" "1.prems" by simp
    then show ?thesis using True "1.prems"
      by (subst find_level.simps, subst (2) find_level.simps) simp
  next
    case False
    then show ?thesis using "1.prems"
      by (subst find_level.simps, subst (2) find_level.simps) auto
  qed
qed

lemma cpufreq_set_level_change:
  assumes "state \<le> max_level cdev" and "state \<noteq> cpufreq_state cdev"
  shows "cpufreq_set_level B cdev state tr =
     (freq_qos_update_request B tr (qos_req cdev) (freq_table cdev ! state),
      cdev\<lparr>cpufreq_state := state\<rparr>,
      tr @ [Qos_update (qos_req cdev) (freq_table cdev ! state)
              (freq_qos_update_request B tr (qos_req cdev) (freq_table cdev ! state))])"
  using assms by (auto simp: cpufreq_set_level_def Let_def)

lemma cpufreq_set_level_same:
  "cpufreq_set_level B cdev (cpufreq_state cdev) tr
     = (if cpufreq_state cdev > max_level cdev then - EINVAL else 0, cdev, tr)"
  by (simp add: cpufreq_set_level_def)

lemma limit_device_fields:
  "dev_id (fst (limit_device B d f tr)) = dev_id d"
  "max_level (fst (limit_device B d f tr)) = max_level d"
  "freq_table (fst (limit_device B d f tr)) = freq_table d"
  "qos_req (fst (limit_device B d f tr)) = qos_req d"
  "policy (fst (limit_device B d f tr)) = policy d"
  by (auto simp: limit_device_def cpufreq_set_level_def Let_def split: option.splits)

lemma limit_device_change:
  assumes "find_level d f 0 = Some l" and "l \<noteq> cpufreq_state d"
  shows "limit_device B d f tr =
     (d\<lparr>cpufreq_state := l\<rparr>,
      tr @ [Qos_update (qos_req d) (freq_table d ! l)
              (freq_qos_update_request B tr (qos_req d) (freq_table d ! l))])"
proof -
  have "l \<le> max_level d" using find_level_Some_D[OF assms(1)] by simp
  then show ?thesis using assms
    by (simp add: limit_device_def cpufreq_set_level_change)
qed

lemma limit_device_same:
  assumes "find_level d f 0 = Some (cpufreq_state d)"
  shows "limit_device B d f tr = (d, tr)"
  using assms by (simp add: limit_device_def cpufreq_set_level_same)

lemma limit_device_None:
  assumes "find_level d f 0 = None"
  shows "limit_device B d f tr = (d, tr)"
  using assms by (simp add: limit_device_def)

lemma limit_device_again:
  "limit_device B (fst (limit_device B d f tr)) f tr' = (fst (limit_device B d f tr), tr')"
proof (cases "find_level d f 0")
  case None
  then show ?thesis by (simp add: limit_device_None)
next
  case (Some l)
  show ?thesis
  proof (cases "l = cpufreq_state d")
    case True
    then show ?thesis using Some by (simp add: limit_device_same)
  next
    case False
    let ?d = "d\<lparr>cpufreq_state := l\<rparr>"
    have "find_level ?d f 0 = find_level d f 0" by (rule find_level_cong) simp_all
    then have "find_level ?d f 0 = Some (cpufreq_state ?d)" using Some by simp
    then have "limit_device B ?d f tr' = (?d, tr')" by (rule limit_device_same)
    then show ?thesis using limit_device_change[OF Some False] by simp
  qed
qed

lemma limit_list_found_trace:
  "find_dev ds c = Some d \<Longrightarrow> snd (limit_list B ds c f tr) = snd (limit_device B d f tr)"
  by (induction ds) (auto simp: find_dev_def split: if_splits prod.splits)

lemma limit_list_found_dev:
  "find_dev ds c = Some d \<Longrightarrow>
     find_dev (fst (limit_list B ds c f tr)) c = Some (fst (limit_device B d f tr))"
proof (induction ds)
  case Nil
  then show ?case by (simp add: find_dev_def)
next
  case (Cons x xs)
  show ?case
  proof (cases "dev_id x = c")
    case True
    then have "x = d" using Cons.prems by (simp add: find_dev_def)
    moreover obtain d' tr' where l: "limit_device B d f tr = (d', tr')"
      by (cases "limit_device B d f tr")
    moreover have "dev_id d' = c" using True \<open>x = d\<close> limit_device_fields(1)[of B d f tr] l
      by simp
    ultimately show ?thesis using True by (simp add: find_dev_def)
  next
    case False
    then have "find_dev xs c = Some d" using Cons.prems by (simp add: find_dev_def)
    then show ?thesis using False Cons.IH by (auto simp: find_dev_def split: prod.splits)
  qed
qed

lemma set_level_trace:
  "find_dev (cpufreq_dev_list s) c = Some d \<Longrightarrow>
     trace (cpu_limits_set_level B c f s) = snd (limit_device B d f (trace s))"
  using limit_list_found_trace[of "cpufreq_dev_list s" c d B f "trace s"]
  by (auto simp: cpu_limits_set_level_def split: prod.splits)

lemma set_level_dev:
  "find_dev (cpufreq_dev_list s) c = Some d \<Longrightarrow>
     find_dev (cpufreq_dev_list (cpu_limits_set_level B c f s)) c
       = Some (fst (limit_device B d f (trace s)))"
  using limit_list_found_dev[of "cpufreq_dev_list s" c d B f "trace s"]
  by (auto simp: cpu_limits_set_level_def split: prod.splits)

lemma set_level_absent:
  "find_dev (cpufreq_dev_list s) c = None \<Longrightarrow> cpu_limits_set_level B c f s = s"
  using limit_list_absent[of "cpufreq_dev_list s" c B f "trace s"]
  by (simp add: cpu_limits_set_level_def)

lemma qos_updates_snoc [simp]:
  "qos_updates (tr @ [Qos_update r f x]) = Suc (qos_updates tr)"
  by (simp add: qos_updates_def)

lemma ssize_of_len:
  fixes len :: "64 word"
  assumes "unat len < 2 ^ 63"
  shows "sint len = int (unat len)"
proof -
  have "int (unat len) < int (2 ^ 63)" using assms by (rule iffD2[OF of_nat_less_iff])
  then have u: "uint len < 2 ^ 63" by (simp only: of_nat_power of_nat_numeral flip: uint_nat)
  have z: "(0::int) \<le> uint len" by simp
  have "- (2 ^ 63) \<le> uint len"
    using z by (rule order_trans[rotated]) simp
  then have e: "signed_take_bit 63 (uint len) = uint len"
    using u by (rule signed_take_bit_int_eq_self)
  have "sint len = signed_take_bit (LENGTH(64) - Suc 0) (uint len)"
    by (rule sint_uint)
  also have "LENGTH(64) - Suc 0 = 63" by simp
  also note e
  also have "uint len = int (unat len)" by (rule uint_nat)
  finally show ?thesis .
qed

lemma store_result:
  "sscanf buf = Some (c, f) \<Longrightarrow>
     cpu_limits_store B sscanf buf len s = (sint len, cpu_limits_set_level B c f s)"
  by (simp add: cpu_limits_store_def)

text \<open>
  Claim C4, as amended. Let a capping call work on an entry. If the level
  found differs from the entry's current level, the call sends exactly one
  ceiling update to the QoS layer, whatever that answers; if the level found
  is the current one, or no level is found, it sends none. A second,
  identical call right after the first sends none in any case. So two such
  calls together send exactly one update when the first changes the level
  and none otherwise.
\<close>

theorem capping_backend_calls:
  assumes "find_dev (cpufreq_dev_list s) c = Some cdev"
  shows "(\<forall>l. find_level cdev f 0 = Some l \<and> l \<noteq> cpufreq_state cdev \<longrightarrow>
            trace (cpu_limits_set_level B c f s)
              = trace s @ [Qos_update (qos_req cdev) (freq_table cdev ! l)
                   (freq_qos_update_request B (trace s) (qos_req cdev) (freq_table cdev ! l))]
            \<and> qos_updates (trace (cpu_limits_set_level B c f s)) = Suc (qos_updates (trace s))
            \<and> qos_updates (trace (cpu_limits_set_level B c f (cpu_limits_set_level B c f s)))
                = Suc (qos_updates (trace s)))
    \<and> (find_level cdev f 0 = Some (cpufreq_state cdev) \<or> find_level cdev f 0 = None \<longrightarrow>
          trace (cpu_limits_set_level B c f s) = trace s
          \<and> qos_updates (trace (cpu_limits_set_level B c f (cpu_limits_set_level B c f s)))
              = qos_updates (trace s))
    \<and> trace (cpu_limits_set_level B c f (cpu_limits_set_level B c f s))
         = trace (cpu_limits_set_level B c f s)"
proof -
  let ?s1 = "cpu_limits_set_level B c f s"
  let ?d1 = "fst (limit_device B cdev f (trace s))"
  have d1: "find_dev (cpufreq_dev_list ?s1) c = Some ?d1"
    using assms by (rule set_level_dev)
  have twice: "trace (cpu_limits_set_level B c f ?s1) = trace ?s1"
    using set_level_trace[OF d1, of B f] limit_device_again[of B cdev f "trace s" "trace ?s1"]
    by simp
  have same: "find_level cdev f 0 = Some (cpufreq_state cdev) \<or> find_level cdev f 0 = None
      \<longrightarrow> trace ?s1 = trace s"
    using set_level_trace[OF assms, of B f] by (auto simp: limit_device_same limit_device_None)
  have change: "\<And>l. find_level cdev f 0 = Some l \<and> l \<noteq> cpufreq_state cdev \<Longrightarrow>
      trace ?s1 = trace s @ [Qos_update (qos_req cdev) (freq_table cdev ! l)
                   (freq_qos_update_request B (trace s) (qos_req cdev) (freq_table cdev ! l))]"
    using set_level_trace[OF assms, of B f] by (simp add: limit_device_change)
  show ?thesis using twice same change by (auto simp del: Let_def)
qed


theorem capping_backend_calls_witness:
  "find_dev (cpufreq_dev_list example_sys) 0 = Some example_dev
    \<and> find_level example_dev 1800 0 = Some 1 \<and> cpufreq_state example_dev = 0
    \<and> trace (cpu_limits_set_level ok_backend 0 1800 example_sys) = [Qos_update 0 1500 1]
    \<and> qos_updates (trace (cpu_limits_set_level ok_backend 0 1800
          (cpu_limits_set_level ok_backend 0 1800 example_sys))) = 1
    \<and> find_level example_dev 2500 0 = Some 0
    \<and> trace (cpu_limits_set_level ok_backend 0 2500 example_sys) = []
    \<and> find_level example_dev 500 0 = None
    \<and> qos_updates (trace (cpu_limits_set_level ok_backend 0 500
          (cpu_limits_set_level ok_backend 0 500 example_sys))) = 0"
proof -
  have fd: "find_dev (cpufreq_dev_list example_sys) 0 = Some example_dev"
    by (simp add: find_dev_def example_sys_def example_dev_def)
  have l1: "find_level example_dev 1800 0 = Some 1" by code_simp
  have l0: "find_level example_dev 2500 0 = Some 0" by code_simp
  have ln: "find_level example_dev 500 0 = None" by code_simp
  have v: "cpufreq_state example_dev = 0" "qos_req example_dev = 0"
    "freq_table example_dev ! 1 = 1500" "trace example_sys = []"
    "freq_qos_update_request ok_backend [] 0 1500 = 1"
    by (simp_all add: example_dev_def example_sys_def ok_backend_def)
  show ?thesis
    using capping_backend_calls[OF fd, of 1800 ok_backend]
      capping_backend_calls[OF fd, of 2500 ok_backend]
      capping_backend_calls[OF fd, of 500 ok_backend] fd l1 l0 ln v
    by (simp add: qos_updates_def)
qed

theorem repeated_cap_no_update_counterexample:
  "find_dev (cpufreq_dev_list example_sys) 0 = Some example_dev
    \<and> qos_updates (trace example_sys) = 0
    \<and> qos_updates (trace (cpu_limits_set_level ok_backend 0 2500
          (cpu_limits_set_level ok_backend 0 2500 example_sys))) = 0
    \<and> qos_updates (trace (cpu_limits_set_level ok_backend 0 500
          (cpu_limits_set_level ok_backend 0 500 example_sys))) = 0"
  by code_simp

text \<open>
  Claim C1, as amended. For every entry and every requested level within
  range that differs from the current one, \<open>cpufreq_set_level\<close> calls the
  QoS layer once and leaves the new level recorded whatever that call
  answers; it returns the answer, a negative code on failure. The capping
  call has no result, and the sysfs store that drives it answers with its
  length argument converted to \<open>ssize_t\<close>, which for a length below
  \<open>2^63\<close> is that length, whatever the QoS layer answered.
\<close>

theorem set_level_keeps_new_level:
  assumes "state \<le> max_level cdev" and "state \<noteq> cpufreq_state cdev"
  shows "cpufreq_set_level B cdev state tr =
      (freq_qos_update_request B tr (qos_req cdev) (freq_table cdev ! state),
       cdev\<lparr>cpufreq_state := state\<rparr>,
       tr @ [Qos_update (qos_req cdev) (freq_table cdev ! state)
               (freq_qos_update_request B tr (qos_req cdev) (freq_table cdev ! state))])
    \<and> (\<forall>s c f. find_dev (cpufreq_dev_list s) c = Some cdev \<and> trace s = tr
              \<and> find_level cdev f 0 = Some state \<longrightarrow>
          find_dev (cpufreq_dev_list (cpu_limits_set_level B c f s)) c
            = Some (cdev\<lparr>cpufreq_state := state\<rparr>)
          \<and> (\<forall>sscanf buf len. sscanf buf = Some (c, f) \<longrightarrow>
                 cpu_limits_store B sscanf buf len s
                   = (sint len, cpu_limits_set_level B c f s)
                 \<and> (unat len < 2 ^ 63 \<longrightarrow>
                       fst (cpu_limits_store B sscanf buf len s) = int (unat len))))"
proof (intro conjI allI impI)
  show "cpufreq_set_level B cdev state tr =
      (freq_qos_update_request B tr (qos_req cdev) (freq_table cdev ! state),
       cdev\<lparr>cpufreq_state := state\<rparr>,
       tr @ [Qos_update (qos_req cdev) (freq_table cdev ! state)
               (freq_qos_update_request B tr (qos_req cdev) (freq_table cdev ! state))])"
    using assms by (rule cpufreq_set_level_change)
next
  fix s :: sys and c f
  assume a: "find_dev (cpufreq_dev_list s) c = Some cdev \<and> trace s = tr
              \<and> find_level cdev f 0 = Some state"
  then show "find_dev (cpufreq_dev_list (cpu_limits_set_level B c f s)) c
            = Some (cdev\<lparr>cpufreq_state := state\<rparr>)"
    using set_level_dev[of s c cdev B f] limit_device_change[of cdev f state B tr] assms(2)
    by simp
next
  fix s :: sys and c f and sscanf :: "string \<Rightarrow> (u32 \<times> u32) option" and buf
    and len :: "64 word"
  assume "sscanf buf = Some (c, f)"
  then show "cpu_limits_store B sscanf buf len s = (sint len, cpu_limits_set_level B c f s)"
    by (rule store_result)
next
  fix s :: sys and c f and sscanf :: "string \<Rightarrow> (u32 \<times> u32) option" and buf
    and len :: "64 word"
  assume "sscanf buf = Some (c, f)" and "unat len < 2 ^ 63"
  then show "fst (cpu_limits_store B sscanf buf len s) = int (unat len)"
    by (simp add: store_result ssize_of_len)
qed

theorem set_level_keeps_new_level_witness:
  "1 \<le> max_level example_dev \<and> 1 \<noteq> cpufreq_state example_dev
    \<and> cpufreq_set_level failing_backend example_dev 1 []
         = (- 22, example_dev\<lparr>cpufreq_state := 1\<rparr>, [Qos_update 0 1500 (- 22)])
    \<and> find_dev (cpufreq_dev_list (cpu_limits_set_level failing_backend 0 1800 example_sys)) 0
         = Some (example_dev\<lparr>cpufreq_state := 1\<rparr>)
    \<and> fst (cpu_limits_store failing_backend (\<lambda>b. Some (0, 1800)) ''cpu0 1800'' 9 example_sys)
         = 9"
proof -
  have h1: "1 \<le> max_level example_dev" by (simp add: example_dev_def)
  have h2: "1 \<noteq> cpufreq_state example_dev" by (simp add: example_dev_def)
  have fd: "find_dev (cpufreq_dev_list example_sys) 0 = Some example_dev"
    by (simp add: find_dev_def example_sys_def example_dev_def)
  have l1: "find_level example_dev 1800 0 = Some 1" by code_simp
  have v: "qos_req example_dev = 0" "freq_table example_dev ! 1 = 1500"
    "trace example_sys = []" "freq_qos_update_request failing_backend [] 0 1500 = - 22"
    by (simp_all add: example_dev_def example_sys_def failing_backend_def ok_backend_def
        EINVAL_def)
  show ?thesis
    using set_level_keeps_new_level[OF h1 h2, of failing_backend "[]"] h1 h2 fd l1 v
    by simp
qed

theorem set_level_no_rollback_counterexample:
  "cpufreq_state example_dev = 0
    \<and> fst (cpufreq_set_level failing_backend example_dev 1 []) < 0
    \<and> cpufreq_state (fst (snd (cpufreq_set_level failing_backend example_dev 1 []))) = 1
    \<and> cpu_limits_store failing_backend (\<lambda>b. Some (0, 1800)) ''cpu0 1800'' 9 example_sys
        = (9, \<lparr>cpufreq_dev_list = [example_dev\<lparr>cpufreq_state := 1\<rparr>],
               trace = [Qos_update 0 1500 (- 22)]\<rparr>)"
  by code_simp

text \<open>
  Claim C5, as amended. A capping call for a processor id that no entry of
  the table carries changes nothing and reaches no backend; no error is
  reported: \<open>cpu_limits_set_level\<close> has no result and the store answers
  as for a request that was served, with its length argument converted to
  \<open>ssize_t\<close>, which for a length below \<open>2^63\<close> is that length.
\<close>

theorem cap_unknown_processor:
  assumes "find_dev (cpufreq_dev_list s) c = None"
  shows "cpu_limits_set_level B c f s = s
    \<and> (sscanf buf = Some (c, f) \<longrightarrow>
          cpu_limits_store B sscanf buf len s = (sint len, s)
          \<and> (unat len < 2 ^ 63 \<longrightarrow>
                fst (cpu_limits_store B sscanf buf len s) = int (unat len)))"
  using set_level_absent[OF assms, of B f] by (simp add: store_result ssize_of_len)

theorem cap_unknown_processor_witness:
  "find_dev (cpufreq_dev_list example_sys) 5 = None
    \<and> cpu_limits_set_level ok_backend 5 1800 example_sys = example_sys
    \<and> cpu_limits_store ok_backend (\<lambda>b. Some (5, 1800)) ''cpu5 1800'' 9 example_sys
         = (9, example_sys)"
proof -
  have h: "find_dev (cpufreq_dev_list example_sys) 5 = None"
    by (simp add: find_dev_def example_sys_def example_dev_def)
  show ?thesis
    using cap_unknown_processor[OF h, of ok_backend 1800 "\<lambda>b. Some (5, 1800)" "''cpu5 1800''" 9] h
    by simp
qed

theorem cap_unknown_processor_counterexample:
  "find_dev (cpufreq_dev_list example_sys) 7 = None
    \<and> \<not> fst (cpu_limits_store ok_backend (\<lambda>b. Some (7, 1800)) ''cpu7 1800'' 9 example_sys) < 0
    \<and> cpu_limits_store ok_backend (\<lambda>b. Some (7, 1800)) ''cpu7 1800'' 9 example_sys
         = (9, example_sys)"
  by code_simp

section \<open>Teardown\<close>

lemma destroy_loop_eq:
  "destroy_loop ds tr
     = ([], tr @ concat (map (\<lambda>d. [Qos_remove (qos_req d), List_del d]) ds))"
  by (induction ds arbitrary: tr) simp_all

lemma removal_ok_teardown:
  "removal_ok R (concat (map (\<lambda>d. [Qos_remove (qos_req d), List_del d]) ds))"
  by (induction ds arbitrary: R) simp_all

text \<open>
  Claim C7, as amended. Teardown treats the entries in list order; for each
  of them it removes the request from the QoS layer and unlinks the entry
  right after, so that, whatever requests were registered before, no entry
  is unlinked while its request is registered. Afterwards the list is empty,
  and a capping call for any processor id finds no entry: it changes
  nothing, and the store that drives it still answers with its length
  argument converted to \<open>ssize_t\<close>, for a length below \<open>2^63\<close> that
  length, instead of an error.
\<close>

theorem teardown_releases_before_unlinking:
  "cpufreq_dev_list (destory_thermal_cpu s) = []
    \<and> trace (destory_thermal_cpu s)
        = trace s @ concat (map (\<lambda>d. [Qos_remove (qos_req d), List_del d]) (cpufreq_dev_list s))
    \<and> (\<forall>R. removal_ok R
           (concat (map (\<lambda>d. [Qos_remove (qos_req d), List_del d]) (cpufreq_dev_list s))))
    \<and> find_dev (cpufreq_dev_list (destory_thermal_cpu s)) c = None
    \<and> cpu_limits_set_level B c f (destory_thermal_cpu s) = destory_thermal_cpu s
    \<and> (sscanf buf = Some (c, f) \<longrightarrow>
          cpu_limits_store B sscanf buf len (destory_thermal_cpu s)
            = (sint len, destory_thermal_cpu s)
          \<and> (unat len < 2 ^ 63 \<longrightarrow>
                fst (cpu_limits_store B sscanf buf len (destory_thermal_cpu s))
                  = int (unat len)))"
proof -
  have l: "cpufreq_dev_list (destory_thermal_cpu s) = []"
    by (simp add: destory_thermal_cpu_def destroy_loop_eq)
  then have n: "find_dev (cpufreq_dev_list (destory_thermal_cpu s)) c = None"
    by (simp add: find_dev_def)
  have t: "trace (destory_thermal_cpu s)
        = trace s @ concat (map (\<lambda>d. [Qos_remove (qos_req d), List_del d]) (cpufreq_dev_list s))"
    by (simp add: destory_thermal_cpu_def destroy_loop_eq)
  have c: "cpu_limits_set_level B c f (destory_thermal_cpu s) = destory_thermal_cpu s"
    using n by (rule set_level_absent)
  show ?thesis using l n t c removal_ok_teardown
    by (simp add: cpu_limits_store_def ssize_of_len)
qed

theorem teardown_releases_before_unlinking_witness:
  "cpufreq_dev_list (destory_thermal_cpu example_sys) = []
    \<and> trace (destory_thermal_cpu example_sys) = [Qos_remove 0, List_del example_dev]
    \<and> removal_ok {0} [Qos_remove 0, List_del example_dev]
    \<and> cpu_limits_store ok_backend (\<lambda>b. Some (0, 1800)) ''cpu0 1800'' 9
          (destory_thermal_cpu example_sys)
        = (9, destory_thermal_cpu example_sys)"
proof -
  have v: "trace example_sys = []" "cpufreq_dev_list example_sys = [example_dev]"
    "qos_req example_dev = 0"
    by (simp_all add: example_sys_def example_dev_def)
  show ?thesis
    using teardown_releases_before_unlinking
      [of example_sys 0 ok_backend 1800 "\<lambda>b. Some (0, 1800)" "''cpu0 1800''" 9] v
    by simp
qed

theorem cap_after_teardown_counterexample:
  "cpufreq_dev_list (destory_thermal_cpu example_sys) = []
    \<and> \<not> fst (cpu_limits_store ok_backend (\<lambda>b. Some (0, 1800)) ''cpu0 1800'' 9
               (destory_thermal_cpu example_sys)) < 0
    \<and> fst (cpu_limits_store ok_backend (\<lambda>b. Some (0, 1800)) ''cpu0 1800'' 9
               (destory_thermal_cpu example_sys)) = 9"
  by code_simp

section \<open>Initialisation\<close>

lemma init_loop_no_policy:
  "cpufreq_cpu_get B c = None \<Longrightarrow> cpu_thermal_init_loop B (c # cs) ret s = (- ESRCH, s)"
  by simp

lemma init_loop_no_entries:
  "cpufreq_cpu_get B c = Some pol \<Longrightarrow> cpufreq_table_count_valid_entries pol = 0
     \<Longrightarrow> cpu_thermal_init_loop B (c # cs) ret s = (- ENODEV, s)"
  by simp

lemma init_loop_no_memory:
  "cpufreq_cpu_get B c = Some pol \<Longrightarrow> cpufreq_table_count_valid_entries pol \<noteq> 0
     \<Longrightarrow> \<not> kzalloc_ok B c \<or> \<not> kmalloc_array_ok B c
     \<Longrightarrow> cpu_thermal_init_loop B (c # cs) ret s = (- ENOMEM, s)"
  by auto

lemma init_loop_add_fails:
  "cpufreq_cpu_get B c = Some pol \<Longrightarrow> cpufreq_table_count_valid_entries pol \<noteq> 0
     \<Longrightarrow> kzalloc_ok B c \<Longrightarrow> kmalloc_array_ok B c
     \<Longrightarrow> freq_qos_add_request B (trace s) c (freq_table (new_device c pol) ! 0) = r
     \<Longrightarrow> r < 0
     \<Longrightarrow> cpu_thermal_init_loop B (c # cs) ret s
          = (r, s\<lparr>trace := trace s @ [Qos_add c (freq_table (new_device c pol) ! 0) r]\<rparr>)"
  by (simp add: Let_def new_device_def)

lemma init_loop_added:
  "cpufreq_cpu_get B c = Some pol \<Longrightarrow> cpufreq_table_count_valid_entries pol \<noteq> 0
     \<Longrightarrow> kzalloc_ok B c \<Longrightarrow> kmalloc_array_ok B c
     \<Longrightarrow> freq_qos_add_request B (trace s) c (freq_table (new_device c pol) ! 0) = r
     \<Longrightarrow> \<not> r < 0
     \<Longrightarrow> cpu_thermal_init_loop B (c # cs) ret s
          = cpu_thermal_init_loop B cs r
              (s\<lparr>cpufreq_dev_list := new_device c pol # cpufreq_dev_list s,
                 trace := trace s @ [Qos_add c (freq_table (new_device c pol) ! 0) r,
                                     List_add (new_device c pol)]\<rparr>)"
  by (simp add: Let_def new_device_def)

lemma errno_negative: "0 < ESRCH" "0 < ENODEV" "0 < ENOMEM" "0 < EINVAL"
  by (simp_all add: ESRCH_def ENODEV_def ENOMEM_def EINVAL_def)

text \<open>
  The loop body for one CPU either fails, and then the rest of the list is
  not looked at, or hands a non-negative code and the extended state on.
\<close>

lemma init_loop_head:
  "cpu_thermal_init_loop B (c # cs) ret s =
     (if fst (cpu_thermal_init_loop B [c] ret s) < 0 then cpu_thermal_init_loop B [c] ret s
      else cpu_thermal_init_loop B cs (fst (cpu_thermal_init_loop B [c] ret s))
             (snd (cpu_thermal_init_loop B [c] ret s)))"
proof (cases "cpufreq_cpu_get B c")
  case None
  then show ?thesis by (simp add: errno_negative)
next
  case (Some pol)
  show ?thesis
  proof (cases "cpufreq_table_count_valid_entries pol = 0")
    case True
    then show ?thesis using Some by (simp add: errno_negative)
  next
    case ne: False
    show ?thesis
    proof (cases "kzalloc_ok B c \<and> kmalloc_array_ok B c")
      case False
      then have "\<And>xs. cpu_thermal_init_loop B (c # xs) ret s = (- ENOMEM, s)"
        using Some ne by (intro init_loop_no_memory) auto
      then show ?thesis by (simp add: errno_negative)
    next
      case True
      let ?r = "freq_qos_add_request B (trace s) c (freq_table (new_device c pol) ! 0)"
      show ?thesis
      proof (cases "?r < 0")
        case neg: True
        have "\<And>xs. cpu_thermal_init_loop B (c # xs) ret s
            = (?r, s\<lparr>trace := trace s @ [Qos_add c (freq_table (new_device c pol) ! 0) ?r]\<rparr>)"
          using Some ne True neg by (intro init_loop_add_fails) auto
        then show ?thesis using neg by simp
      next
        case pos: False
        have "\<And>xs. cpu_thermal_init_loop B (c # xs) ret s
          = cpu_thermal_init_loop B xs ?r
              (s\<lparr>cpufreq_dev_list := new_device c pol # cpufreq_dev_list s,
                 trace := trace s @ [Qos_add c (freq_table (new_device c pol) ! 0) ?r,
                                     List_add (new_device c pol)]\<rparr>)"
          using Some ne True pos by (intro init_loop_added) auto
        then show ?thesis using pos by simp
      qed
    qed
  qed
qed

lemma init_loop_append:
  "pre \<noteq> [] \<Longrightarrow>
   cpu_thermal_init_loop B (pre @ post) ret s =
     (if fst (cpu_thermal_init_loop B pre ret s) < 0 then cpu_thermal_init_loop B pre ret s
      else cpu_thermal_init_loop B post (fst (cpu_thermal_init_loop B pre ret s))
             (snd (cpu_thermal_init_loop B pre ret s)))"
proof (induction pre arbitrary: ret s)
  case Nil
  then show ?case by simp
next
  case (Cons c pre)
  show ?case
  proof (cases "pre = []")
    case True
    then show ?thesis using init_loop_head[of B c post ret s] by simp
  next
    case False
    let ?h = "cpu_thermal_init_loop B [c] ret s"
    show ?thesis
    proof (cases "fst ?h < 0")
      case True
      then show ?thesis
        using init_loop_head[of B c "pre @ post" ret s] init_loop_head[of B c pre ret s]
        by simp
    next
      case ok: False
      have a: "cpu_thermal_init_loop B (c # pre @ post) ret s
                 = cpu_thermal_init_loop B (pre @ post) (fst ?h) (snd ?h)"
        using init_loop_head[of B c "pre @ post" ret s] ok by simp
      have b: "cpu_thermal_init_loop B (c # pre) ret s
                 = cpu_thermal_init_loop B pre (fst ?h) (snd ?h)"
        using init_loop_head[of B c pre ret s] ok by simp
      show ?thesis using Cons.IH[OF False, of "fst ?h" "snd ?h"] a b by simp
    qed
  qed
qed

text \<open>
  Claim C6, as amended. Whatever stops the loop body for a processor (no
  policy, no valid entry, no memory, a refused registration), the function
  \<open>cpu_thermal_init\<close> ends there with the negative code, the table holding
  what the earlier processors added and nothing of the later ones: after a
  failure within a non-empty prefix of the processors the result does not
  depend on the processors that follow. The module's init function drops
  that code and returns 0.
\<close>

theorem init_stops_at_failure:
  "(cpufreq_cpu_get B c = None \<longrightarrow> cpu_thermal_init_loop B (c # cs) ret s = (- ESRCH, s))
    \<and> (\<forall>pol. cpufreq_cpu_get B c = Some pol \<and> cpufreq_table_count_valid_entries pol = 0
          \<longrightarrow> cpu_thermal_init_loop B (c # cs) ret s = (- ENODEV, s))
    \<and> (\<forall>pol. cpufreq_cpu_get B c = Some pol \<and> cpufreq_table_count_valid_entries pol \<noteq> 0
            \<and> (\<not> kzalloc_ok B c \<or> \<not> kmalloc_array_ok B c)
          \<longrightarrow> cpu_thermal_init_loop B (c # cs) ret s = (- ENOMEM, s))
    \<and> (\<forall>pol. cpufreq_cpu_get B c = Some pol \<and> cpufreq_table_count_valid_entries pol \<noteq> 0
            \<and> kzalloc_ok B c \<and> kmalloc_array_ok B c
            \<and> freq_qos_add_request B (trace s) c (freq_table (new_device c pol) ! 0) < 0
          \<longrightarrow> fst (cpu_thermal_init_loop B (c # cs) ret s)
                = freq_qos_add_request B (trace s) c (freq_table (new_device c pol) ! 0)
              \<and> cpufreq_dev_list (snd (cpu_thermal_init_loop B (c # cs) ret s))
                  = cpufreq_dev_list s)
    \<and> (pre \<noteq> [] \<and> fst (cpu_thermal_init_loop B pre ret s) < 0
          \<longrightarrow> cpu_thermal_init_loop B (pre @ post) ret s = cpu_thermal_init_loop B pre ret s)
    \<and> (pre \<noteq> [] \<and> \<not> fst (cpu_thermal_init_loop B pre ret s) < 0
          \<longrightarrow> cpu_thermal_init_loop B (pre @ post) ret s
                = cpu_thermal_init_loop B post (fst (cpu_thermal_init_loop B pre ret s))
                    (snd (cpu_thermal_init_loop B pre ret s)))
    \<and> fst (mi_thermal_interface_init B ret0 s) = 0
    \<and> snd (mi_thermal_interface_init B ret0 s) = snd (cpu_thermal_init B ret0 s)"
proof -
  have "\<And>pol. cpufreq_cpu_get B c = Some pol \<Longrightarrow> cpufreq_table_count_valid_entries pol \<noteq> 0
      \<Longrightarrow> kzalloc_ok B c \<Longrightarrow> kmalloc_array_ok B c
      \<Longrightarrow> freq_qos_add_request B (trace s) c (freq_table (new_device c pol) ! 0) < 0
      \<Longrightarrow> fst (cpu_thermal_init_loop B (c # cs) ret s)
                = freq_qos_add_request B (trace s) c (freq_table (new_device c pol) ! 0)
          \<and> cpufreq_dev_list (snd (cpu_thermal_init_loop B (c # cs) ret s))
                = cpufreq_dev_list s"
    using init_loop_add_fails[of B c _ s _ cs ret] by simp
  moreover have "\<And>pol. cpufreq_cpu_get B c = Some pol
      \<Longrightarrow> cpufreq_table_count_valid_entries pol \<noteq> 0
      \<Longrightarrow> \<not> kzalloc_ok B c \<or> \<not> kmalloc_array_ok B c
      \<Longrightarrow> cpu_thermal_init_loop B (c # cs) ret s = (- ENOMEM, s)"
    by (rule init_loop_no_memory)
  moreover have "fst (mi_thermal_interface_init B ret0 s) = 0"
    "snd (mi_thermal_interface_init B ret0 s) = snd (cpu_thermal_init B ret0 s)"
    by (simp_all add: mi_thermal_interface_init_def)
  ultimately show ?thesis
    using init_loop_append[of pre B post ret s]
      init_loop_no_policy[of B c cs ret s] init_loop_no_entries[of B c _ cs ret s]
    by (intro conjI allI impI) (simp_all del: cpu_thermal_init_loop.simps)
qed

theorem init_stops_at_failure_witness:
  "cpufreq_cpu_get no_policy_backend 0 = None
    \<and> cpu_thermal_init_loop no_policy_backend [0, 1] 0 empty_sys = (- 3, empty_sys)
    \<and> fst (cpu_thermal_init_loop ok_backend [0, 1] 0 empty_sys) < 0
    \<and> cpu_thermal_init_loop ok_backend ([0, 1] @ [2]) 0 empty_sys
         = cpu_thermal_init_loop ok_backend [0, 1] 0 empty_sys
    \<and> \<not> fst (cpu_thermal_init_loop ok_backend [0] 0 empty_sys) < 0
    \<and> cpu_thermal_init_loop ok_backend ([0] @ [1]) 0 empty_sys
         = cpu_thermal_init_loop ok_backend [1] 1
             (snd (cpu_thermal_init_loop ok_backend [0] 0 empty_sys))
    \<and> fst (mi_thermal_interface_init no_policy_backend 0 empty_sys) = 0
    \<and> cpu_thermal_init_loop
          (ok_backend\<lparr>cpufreq_cpu_get := (\<lambda>c. Some \<lparr>cpu = 0, policy_freq_table = None\<rparr>)\<rparr>)
          [0, 1] 0 empty_sys = (- 19, empty_sys)
    \<and> cpu_thermal_init_loop (ok_backend\<lparr>kmalloc_array_ok := (\<lambda>c. False)\<rparr>) [0, 1] 0 empty_sys
         = (- 12, empty_sys)
    \<and> fst (cpu_thermal_init_loop (ok_backend\<lparr>freq_qos_add_request := (\<lambda>tr r f. - 22)\<rparr>)
             [0, 1] 0 empty_sys) = - 22
    \<and> cpufreq_dev_list (snd (cpu_thermal_init_loop
             (ok_backend\<lparr>freq_qos_add_request := (\<lambda>tr r f. - 22)\<rparr>) [0, 1] 0 empty_sys)) = []"
proof -
  let ?B1 = "ok_backend\<lparr>cpufreq_cpu_get := (\<lambda>c. Some \<lparr>cpu = 0, policy_freq_table = None\<rparr>)\<rparr>"
  let ?B2 = "ok_backend\<lparr>kmalloc_array_ok := (\<lambda>c. False)\<rparr>"
  let ?B3 = "ok_backend\<lparr>freq_qos_add_request := (\<lambda>tr r f. - 22)\<rparr>"
  have g1: "cpufreq_cpu_get ?B1 0 = Some \<lparr>cpu = 0, policy_freq_table = None\<rparr>"
    "cpufreq_table_count_valid_entries \<lparr>cpu = 0, policy_freq_table = None\<rparr> = 0"
    by (simp_all add: cpufreq_table_count_valid_entries_def)
  have g2: "cpufreq_cpu_get ?B2 0 = Some example_policy"
    "cpufreq_table_count_valid_entries example_policy \<noteq> 0" "\<not> kmalloc_array_ok ?B2 0"
    by (simp add: ok_backend_def, code_simp, simp)
  have g3: "cpufreq_cpu_get ?B3 0 = Some example_policy" "kzalloc_ok ?B3 0"
    "kmalloc_array_ok ?B3 0"
    "freq_qos_add_request ?B3 (trace empty_sys) 0 (freq_table (new_device 0 example_policy) ! 0)
       = - 22"
    "cpufreq_dev_list empty_sys = []"
    by (simp_all add: ok_backend_def empty_sys_def)
  have r5: "cpu_thermal_init_loop ?B1 [0, 1] 0 empty_sys = (- 19, empty_sys)"
    using init_stops_at_failure[of ?B1 0 "[1]" 0 empty_sys "[0]" "[]" 0] g1
    by (simp add: ENODEV_def del: cpu_thermal_init_loop.simps)
  have r6: "cpu_thermal_init_loop ?B2 [0, 1] 0 empty_sys = (- 12, empty_sys)"
    using init_stops_at_failure[of ?B2 0 "[1]" 0 empty_sys "[0]" "[]" 0] g2
    by (simp add: ENOMEM_def del: cpu_thermal_init_loop.simps)
  have r7: "fst (cpu_thermal_init_loop ?B3 [0, 1] 0 empty_sys) = - 22
    \<and> cpufreq_dev_list (snd (cpu_thermal_init_loop ?B3 [0, 1] 0 empty_sys)) = []"
    using init_stops_at_failure[of ?B3 0 "[1]" 0 empty_sys "[0]" "[]" 0] g2(2) g3
    by (simp del: cpu_thermal_init_loop.simps)
  have a: "cpufreq_cpu_get no_policy_backend 0 = None"
    by (simp add: no_policy_backend_def ok_backend_def)
  have b: "[0, 1] \<noteq> ([] :: nat list)" "[0] \<noteq> ([] :: nat list)" by simp_all
  have c: "fst (cpu_thermal_init_loop ok_backend [0, 1] 0 empty_sys) < 0" by code_simp
  have d: "\<not> fst (cpu_thermal_init_loop ok_backend [0] 0 empty_sys) < 0" by code_simp
  have e: "fst (cpu_thermal_init_loop ok_backend [0] 0 empty_sys) = 1" by code_simp
  have r1: "cpu_thermal_init_loop no_policy_backend [0, 1] 0 empty_sys = (- 3, empty_sys)"
    using init_stops_at_failure[of no_policy_backend 0 "[1]" 0 empty_sys "[0]" "[]" 0] a
    by (simp add: ESRCH_def del: cpu_thermal_init_loop.simps)
  have r2: "cpu_thermal_init_loop ok_backend ([0, 1] @ [2]) 0 empty_sys
         = cpu_thermal_init_loop ok_backend [0, 1] 0 empty_sys"
    using init_stops_at_failure[of ok_backend 0 "[]" 0 empty_sys "[0, 1]" "[2]" 0] b c
    by (simp del: cpu_thermal_init_loop.simps append.simps)
  have r3: "cpu_thermal_init_loop ok_backend ([0] @ [1]) 0 empty_sys
         = cpu_thermal_init_loop ok_backend [1] 1
             (snd (cpu_thermal_init_loop ok_backend [0] 0 empty_sys))"
    using init_stops_at_failure[of ok_backend 0 "[]" 0 empty_sys "[0]" "[1]" 0] b d e
    by (simp del: cpu_thermal_init_loop.simps append.simps)
  have r4: "fst (mi_thermal_interface_init no_policy_backend 0 empty_sys) = 0"
    using init_stops_at_failure[of no_policy_backend 0 "[]" 0 empty_sys "[0]" "[]" 0]
    by (simp del: cpu_thermal_init_loop.simps)
  show ?thesis using a c d r1 r2 r3 r4 r5 r6 r7
    by (simp del: cpu_thermal_init_loop.simps append.simps)
qed

theorem init_error_dropped_counterexample:
  "possible_cpus no_policy_backend = [0]
    \<and> cpufreq_cpu_get no_policy_backend 0 = None
    \<and> cpu_thermal_init no_policy_backend 0 empty_sys = (- 3, empty_sys)
    \<and> mi_thermal_interface_init no_policy_backend 0 empty_sys = (0, empty_sys)"
  by code_simp

section \<open>The invariant of an entry\<close>

lemma count_valid_entries_table:
  assumes "cpufreq_table_count_valid_entries pol \<noteq> 0"
  obtains table where "policy_freq_table pol = Some table" "valid_entries table \<noteq> []"
    "cpufreq_table_count_valid_entries pol = length (valid_entries table)"
  using assms by (auto simp: cpufreq_table_count_valid_entries_def split: option.splits)

lemma new_device_fields:
  assumes "policy_freq_table pol = Some table"
  shows "freq_table (new_device c pol) = build_freq_table table"
    "max_level (new_device c pol) = length (valid_entries table) - 1"
    "cpufreq_state (new_device c pol) = 0" "qos_req (new_device c pol) = c"
    "policy (new_device c pol) = pol" "dev_id (new_device c pol) = cpu pol"
  using assms
  by (simp_all add: new_device_def build_freq_table_def cpufreq_table_count_valid_entries_def
      Let_def)

lemma find_next_max_top:
  assumes "valid_entries table \<noteq> []"
  shows "find_next_max table (- 1) = Max (set (valid_entries table))"
proof -
  have "{f \<in> set (valid_entries table). f < - 1} = set (valid_entries table)"
    using valid_entries_less by auto
  moreover have "Max (insert 0 (set (valid_entries table))) = Max (set (valid_entries table))"
    using assms by (simp add: max_def)
  ultimately show ?thesis by (simp add: find_next_max_Max)
qed

lemma build_freq_table_first:
  "build_freq_table table ! 0 = find_next_max table (- 1)"
  unfolding build_freq_table_def by (subst fill_freq_table.simps) (simp add: Let_def)

lemma new_device_fresh:
  assumes "cpufreq_table_count_valid_entries pol \<noteq> 0"
    and "Qos_add c (freq_table (new_device c pol) ! 0) r \<in> set tr" and "0 \<le> r"
  shows "fresh_entry tr (new_device c pol)"
proof -
  obtain table where t: "policy_freq_table pol = Some table" "valid_entries table \<noteq> []"
    using assms(1) by (rule count_valid_entries_table)
  have len: "length (build_freq_table table) = Suc (length (valid_entries table) - 1)"
    using build_shape[OF t(2)] t(2) by (cases "valid_entries table") simp_all
  have top: "build_freq_table table ! 0 = Max (set (valid_entries table))"
    using t(2) by (simp add: build_freq_table_first find_next_max_top)
  have "is_seed (new_device c pol) (Qos_add c (freq_table (new_device c pol) ! 0) r)"
    using assms(3) t(1) by (simp add: new_device_fields)
  then have "\<exists>e \<in> set tr. is_seed (new_device c pol) e" using assms(2) by blast
  then show ?thesis using t len top
    by (simp add: fresh_entry_def new_device_fields)
qed

lemma fresh_entry_mono: "fresh_entry tr d \<Longrightarrow> fresh_entry (tr @ ev) d"
  by (auto simp: fresh_entry_def)

lemma fresh_entry_inv: "fresh_entry tr d \<Longrightarrow> dev_inv d"
  by (simp add: fresh_entry_def dev_inv_def)

lemma init_loop_fresh:
  "\<exists>new ev. cpufreq_dev_list (snd (cpu_thermal_init_loop B cs ret s)) = new @ cpufreq_dev_list s
      \<and> trace (snd (cpu_thermal_init_loop B cs ret s)) = trace s @ ev
      \<and> (\<forall>d \<in> set new. fresh_entry (trace s @ ev) d)"
proof (induction cs arbitrary: ret s)
  case Nil
  show ?case by simp
next
  case (Cons c cs)
  let ?h = "cpu_thermal_init_loop B [c] ret s"
  have unfold: "cpu_thermal_init_loop B (c # cs) ret s =
     (if fst ?h < 0 then ?h else cpu_thermal_init_loop B cs (fst ?h) (snd ?h))"
    by (rule init_loop_head)
  show ?case
  proof (cases "cpufreq_cpu_get B c")
    case None
    then show ?thesis by simp
  next
    case (Some pol)
    show ?thesis
    proof (cases "cpufreq_table_count_valid_entries pol = 0
                    \<or> \<not> kzalloc_ok B c \<or> \<not> kmalloc_array_ok B c")
      case True
      then show ?thesis using Some by auto
    next
      case False
      let ?d = "new_device c pol"
      let ?r = "freq_qos_add_request B (trace s) c (freq_table ?d ! 0)"
      show ?thesis
      proof (cases "?r < 0")
        case True
        then have "cpu_thermal_init_loop B (c # cs) ret s
            = (?r, s\<lparr>trace := trace s @ [Qos_add c (freq_table ?d ! 0) ?r]\<rparr>)"
          using Some False by (intro init_loop_add_fails) auto
        then show ?thesis by simp
      next
        case ok: False
        let ?s1 = "s\<lparr>cpufreq_dev_list := ?d # cpufreq_dev_list s,
                      trace := trace s @ [Qos_add c (freq_table ?d ! 0) ?r, List_add ?d]\<rparr>"
        have step: "cpu_thermal_init_loop B (c # cs) ret s = cpu_thermal_init_loop B cs ?r ?s1"
          using Some False ok by (intro init_loop_added) auto
        obtain new ev where
          n: "cpufreq_dev_list (snd (cpu_thermal_init_loop B cs ?r ?s1))
                = new @ cpufreq_dev_list ?s1"
          and e: "trace (snd (cpu_thermal_init_loop B cs ?r ?s1)) = trace ?s1 @ ev"
          and f: "\<forall>d \<in> set new. fresh_entry (trace ?s1 @ ev) d"
          using Cons.IH[of ?r ?s1] by blast
        have "fresh_entry (trace ?s1) ?d"
          using False ok by (intro new_device_fresh[of pol c ?r]) auto
        then have fd: "fresh_entry (trace ?s1 @ ev) ?d" by (rule fresh_entry_mono)
        let ?ev = "[Qos_add c (freq_table ?d ! 0) ?r, List_add ?d] @ ev"
        have "cpufreq_dev_list (snd (cpu_thermal_init_loop B (c # cs) ret s))
                = (new @ [?d]) @ cpufreq_dev_list s"
          unfolding step n by simp
        moreover have "trace (snd (cpu_thermal_init_loop B (c # cs) ret s)) = trace s @ ?ev"
          unfolding step e by simp
        moreover have "\<forall>d \<in> set (new @ [?d]). fresh_entry (trace s @ ?ev) d"
          using f fd by simp
        ultimately show ?thesis by blast
      qed
    qed
  qed
qed

lemma limit_device_inv: "dev_inv d \<Longrightarrow> dev_inv (fst (limit_device B d f tr))"
proof (cases "find_level d f 0")
  case None
  assume "dev_inv d"
  then show ?thesis using None by (simp add: limit_device_None)
next
  case (Some l)
  assume i: "dev_inv d"
  have "l \<le> max_level d" using find_level_Some_D[OF Some] by simp
  then show ?thesis
    using i Some by (cases "l = cpufreq_state d")
      (simp_all add: limit_device_same limit_device_change dev_inv_def)
qed

lemma limit_device_fields_pair:
  assumes "limit_device B d f tr = (d', tr')"
  shows "dev_id d' = dev_id d \<and> max_level d' = max_level d \<and> freq_table d' = freq_table d
    \<and> qos_req d' = qos_req d"
  using limit_device_fields[of B d f tr] assms by simp

lemma limit_list_fields:
  "map dev_id (fst (limit_list B ds c f tr)) = map dev_id ds
   \<and> map max_level (fst (limit_list B ds c f tr)) = map max_level ds
   \<and> map freq_table (fst (limit_list B ds c f tr)) = map freq_table ds
   \<and> map qos_req (fst (limit_list B ds c f tr)) = map qos_req ds"
  by (induction ds) (auto split: prod.splits dest: limit_device_fields_pair)

lemma limit_list_inv:
  "\<forall>d \<in> set ds. dev_inv d \<Longrightarrow> \<forall>d \<in> set (fst (limit_list B ds c f tr)). dev_inv d"
proof (induction ds)
  case Nil
  then show ?case by simp
next
  case (Cons x xs)
  show ?case
  proof (cases "dev_id x = c")
    case True
    have "dev_inv (fst (limit_device B x f tr))" using Cons.prems by (simp add: limit_device_inv)
    then show ?thesis using True Cons.prems by (auto split: prod.splits)
  next
    case False
    then show ?thesis using Cons by (auto split: prod.splits)
  qed
qed

lemma set_level_fields:
  "map dev_id (cpufreq_dev_list (cpu_limits_set_level B c f s)) = map dev_id (cpufreq_dev_list s)
   \<and> map max_level (cpufreq_dev_list (cpu_limits_set_level B c f s))
       = map max_level (cpufreq_dev_list s)
   \<and> map freq_table (cpufreq_dev_list (cpu_limits_set_level B c f s))
       = map freq_table (cpufreq_dev_list s)
   \<and> map qos_req (cpufreq_dev_list (cpu_limits_set_level B c f s))
       = map qos_req (cpufreq_dev_list s)"
  using limit_list_fields[of B "cpufreq_dev_list s" c f "trace s"]
  by (auto simp: cpu_limits_set_level_def split: prod.splits)

lemma set_level_inv:
  "\<forall>d \<in> set (cpufreq_dev_list s). dev_inv d
     \<Longrightarrow> \<forall>d \<in> set (cpufreq_dev_list (cpu_limits_set_level B c f s)). dev_inv d"
  using limit_list_inv[of "cpufreq_dev_list s" B c f "trace s"]
  by (auto simp: cpu_limits_set_level_def split: prod.splits)

lemma run_caps_fields:
  "map dev_id (cpufreq_dev_list (run_caps B reqs s)) = map dev_id (cpufreq_dev_list s)
   \<and> map max_level (cpufreq_dev_list (run_caps B reqs s)) = map max_level (cpufreq_dev_list s)
   \<and> map freq_table (cpufreq_dev_list (run_caps B reqs s)) = map freq_table (cpufreq_dev_list s)
   \<and> map qos_req (cpufreq_dev_list (run_caps B reqs s)) = map qos_req (cpufreq_dev_list s)"
proof (induction reqs arbitrary: s)
  case Nil
  show ?case by (simp add: run_caps_def)
next
  case (Cons q reqs)
  obtain c f where q: "q = (c, f)" by (cases q)
  have "run_caps B (q # reqs) s = run_caps B reqs (cpu_limits_set_level B c f s)"
    by (simp add: run_caps_def q)
  then show ?case
    using Cons.IH[of "cpu_limits_set_level B c f s"] set_level_fields[of B c f s] by simp
qed

lemma run_caps_inv:
  "\<forall>d \<in> set (cpufreq_dev_list s). dev_inv d
     \<Longrightarrow> \<forall>d \<in> set (cpufreq_dev_list (run_caps B reqs s)). dev_inv d"
proof (induction reqs arbitrary: s)
  case Nil
  then show ?case by (simp add: run_caps_def)
next
  case (Cons q reqs)
  obtain c f where q: "q = (c, f)" by (cases q)
  have "run_caps B (q # reqs) s = run_caps B reqs (cpu_limits_set_level B c f s)"
    by (simp add: run_caps_def q)
  then show ?case
    using Cons.IH[of "cpu_limits_set_level B c f s"] set_level_inv[OF Cons.prems, of B c f]
    by simp
qed

text \<open>
  Claim C8. Every entry that initialisation adds starts at level 0 with a
  table of \<open>max_level + 1\<close> slots, so \<open>max_level\<close> is the table's length
  less one; its request has been registered successfully with the frequency
  of slot 0, the highest valid frequency of the policy. Capping calls keep
  the level of every entry within \<open>0 .. max_level\<close> and change neither a
  table nor \<open>max_level\<close>, the id or the request of any entry; so the
  invariant holds in every state reached from the empty table by
  initialisation and any sequence of capping calls.
\<close>

theorem entries_keep_invariant:
  "(\<exists>new ev. cpufreq_dev_list (snd (cpu_thermal_init B ret0 s)) = new @ cpufreq_dev_list s
        \<and> trace (snd (cpu_thermal_init B ret0 s)) = trace s @ ev
        \<and> (\<forall>d \<in> set new. fresh_entry (trace s @ ev) d \<and> dev_inv d))
    \<and> ((\<forall>d \<in> set (cpufreq_dev_list s). dev_inv d) \<longrightarrow>
          (\<forall>d \<in> set (cpufreq_dev_list (run_caps B reqs s)). dev_inv d))
    \<and> map freq_table (cpufreq_dev_list (run_caps B reqs s)) = map freq_table (cpufreq_dev_list s)
    \<and> map max_level (cpufreq_dev_list (run_caps B reqs s)) = map max_level (cpufreq_dev_list s)
    \<and> map dev_id (cpufreq_dev_list (run_caps B reqs s)) = map dev_id (cpufreq_dev_list s)
    \<and> map qos_req (cpufreq_dev_list (run_caps B reqs s)) = map qos_req (cpufreq_dev_list s)
    \<and> (\<forall>d \<in> set (cpufreq_dev_list
                      (run_caps B reqs (snd (cpu_thermal_init B ret0 empty_sys)))). dev_inv d)"
proof -
  have init: "\<And>s. \<exists>new ev.
        cpufreq_dev_list (snd (cpu_thermal_init B ret0 s)) = new @ cpufreq_dev_list s
        \<and> trace (snd (cpu_thermal_init B ret0 s)) = trace s @ ev
        \<and> (\<forall>d \<in> set new. fresh_entry (trace s @ ev) d \<and> dev_inv d)"
    unfolding cpu_thermal_init_def
    using init_loop_fresh[of B "possible_cpus B" ret0] fresh_entry_inv by blast
  have "\<forall>d \<in> set (cpufreq_dev_list (snd (cpu_thermal_init B ret0 empty_sys))). dev_inv d"
    using init[of empty_sys] by (auto simp: empty_sys_def)
  then have reach: "\<forall>d \<in> set (cpufreq_dev_list
                      (run_caps B reqs (snd (cpu_thermal_init B ret0 empty_sys)))). dev_inv d"
    by (rule run_caps_inv)
  show ?thesis
    using init[of s] reach run_caps_fields[of B reqs s] run_caps_inv[of s B reqs]
    by (intro conjI impI) simp_all
qed

theorem entries_keep_invariant_witness:
  "snd (cpu_thermal_init ok_backend 0 empty_sys)
      = \<lparr>cpufreq_dev_list = [example_dev], trace = [Qos_add 0 2000 1, List_add example_dev]\<rparr>
    \<and> fresh_entry [Qos_add 0 2000 1, List_add example_dev] example_dev
    \<and> dev_inv example_dev
    \<and> cpufreq_dev_list (run_caps ok_backend [(0, 1800), (0, 500)]
          (snd (cpu_thermal_init ok_backend 0 empty_sys)))
        = [example_dev\<lparr>cpufreq_state := 1\<rparr>]
    \<and> dev_inv (example_dev\<lparr>cpufreq_state := 1\<rparr>)"
proof -
  have i: "snd (cpu_thermal_init ok_backend 0 empty_sys)
      = \<lparr>cpufreq_dev_list = [example_dev], trace = [Qos_add 0 2000 1, List_add example_dev]\<rparr>"
    by code_simp
  have r: "cpufreq_dev_list (run_caps ok_backend [(0, 1800), (0, 500)]
          (snd (cpu_thermal_init ok_backend 0 empty_sys)))
        = [example_dev\<lparr>cpufreq_state := 1\<rparr>]"
    by code_simp
  have e: "cpufreq_dev_list empty_sys = []" "trace empty_sys = []"
    by (simp_all add: empty_sys_def)
  note t = entries_keep_invariant[of ok_backend 0 empty_sys "[(0, 1800), (0, 500)]"]
  have f: "fresh_entry [Qos_add 0 2000 1, List_add example_dev] example_dev
             \<and> dev_inv example_dev"
    using t unfolding i e by auto
  have d: "dev_inv (example_dev\<lparr>cpufreq_state := 1\<rparr>)"
    using t unfolding r by simp
  show ?thesis using i r f d by simp
qed

section \<open>Tables with sentinel slots\<close>

lemma find_level_None_D:
  "find_level cdev f level = None \<Longrightarrow> level \<le> j \<Longrightarrow> j \<le> max_level cdev
     \<Longrightarrow> f < freq_table cdev ! j"
proof (induction cdev f level rule: find_level.induct)
  case (1 cdev f level)
  have le: "level \<le> max_level cdev" using "1.prems" by simp
  have n: "\<not> freq_table cdev ! level \<le> f"
    using "1.prems"(1) le by (subst (asm) find_level.simps) (auto split: if_splits)
  then have r: "find_level cdev f (Suc level) = None"
    using "1.prems"(1) le by (subst (asm) find_level.simps) simp
  show ?case
  proof (cases "j = level")
    case True
    then show ?thesis using n by simp
  next
    case False
    then have "Suc level \<le> j" using "1.prems" by simp
    then show ?thesis using "1.IH"[OF le n r] "1.prems" by simp
  qed
qed

lemma scan_None_no_sentinel:
  assumes "length (freq_table dv) = Suc (max_level dv)" and "find_level dv f 0 = None"
  shows "0 \<notin> set (freq_table dv)"
proof
  assume "0 \<in> set (freq_table dv)"
  then obtain j where j: "j < length (freq_table dv)" "freq_table dv ! j = 0"
    by (auto simp: in_set_conv_nth)
  then have "f < freq_table dv ! j"
    using assms by (intro find_level_None_D[of dv f 0 j]) simp_all
  then show False using j by simp
qed

lemma duplicates_card:
  assumes "\<not> distinct (valid_entries table)"
  shows "card (real_freqs table) < length (valid_entries table)"
proof -
  have "card (real_freqs table) \<le> card (set (valid_entries table))"
    by (rule card_mono) (auto simp: real_freqs_def)
  moreover have "card (set (valid_entries table)) \<noteq> length (valid_entries table)"
    using assms card_distinct by blast
  moreover have "card (set (valid_entries table)) \<le> length (valid_entries table)"
    by (rule card_length)
  ultimately show ?thesis by simp
qed

text \<open>
  Claim C10, as amended. If the valid entries of the raw table contain a
  duplicate, the built table ends in slots holding 0, and then every request
  matches some index. A request below every non-zero valid frequency matches
  the first of these slots: the entry's level becomes that index, and a
  ceiling of 0 is sent to the QoS layer unless the level already is that
  index, in which case nothing is sent. A request matches no index only on a
  table without a slot holding 0.
\<close>

theorem sentinel_slot_matches:
  assumes dup: "\<not> distinct (valid_entries table)"
    and tab: "freq_table cdev = build_freq_table table"
    and ml: "max_level cdev = length (valid_entries table) - 1"
  shows "card (real_freqs table) < length (valid_entries table)
    \<and> drop (card (real_freqs table)) (freq_table cdev)
        = replicate (length (valid_entries table) - card (real_freqs table)) 0
    \<and> (\<forall>f. \<exists>l. find_level cdev f 0 = Some l)
    \<and> (\<forall>f. (\<forall>x \<in> real_freqs table. f < x) \<longrightarrow>
          find_level cdev f 0 = Some (card (real_freqs table))
          \<and> freq_table cdev ! card (real_freqs table) = 0
          \<and> limit_device B cdev f tr =
              (if cpufreq_state cdev = card (real_freqs table) then (cdev, tr)
               else (cdev\<lparr>cpufreq_state := card (real_freqs table)\<rparr>,
                     tr @ [Qos_update (qos_req cdev) 0
                             (freq_qos_update_request B tr (qos_req cdev) 0)])))
    \<and> (\<forall>dv f. length (freq_table dv) = Suc (max_level dv) \<and> find_level dv f 0 = None
          \<longrightarrow> 0 \<notin> set (freq_table dv))"
proof -
  let ?n = "length (valid_entries table)"
  let ?d = "card (real_freqs table)"
  have ne: "valid_entries table \<noteq> []" using dup by auto
  have dn: "?d < ?n" using dup by (rule duplicates_card)
  note shape = build_shape[OF ne]
  have len: "length (freq_table cdev) = ?n" using shape tab by simp
  have dr: "drop ?d (freq_table cdev) = replicate (?n - ?d) 0" using shape tab by simp
  have tk: "set (take ?d (freq_table cdev)) = real_freqs table" using shape tab by simp
  have "freq_table cdev ! ?d = drop ?d (freq_table cdev) ! 0"
    using dn len by simp
  then have zero: "freq_table cdev ! ?d = 0" using dr dn by simp
  have dle: "?d \<le> max_level cdev" using dn ml by simp
  have some: "\<exists>l. find_level cdev f 0 = Some l" for f
  proof (cases "find_level cdev f 0")
    case None
    then have "f < freq_table cdev ! ?d" using dle by (intro find_level_None_D[of cdev f 0]) simp_all
    then show ?thesis using zero by simp
  qed simp
  have low: "find_level cdev f 0 = Some ?d" if b: "\<forall>x \<in> real_freqs table. f < x" for f
  proof (rule find_level_skip)
    fix j assume j: "j < ?d"
    then have "take ?d (freq_table cdev) ! j \<in> set (take ?d (freq_table cdev))"
      using dn len by (intro nth_mem) simp
    then have "freq_table cdev ! j \<in> real_freqs table" using j tk by simp
    then show "f < freq_table cdev ! j" using b by simp
  qed (use dle zero in simp_all)
  have dev: "limit_device B cdev f tr =
              (if cpufreq_state cdev = ?d then (cdev, tr)
               else (cdev\<lparr>cpufreq_state := ?d\<rparr>,
                     tr @ [Qos_update (qos_req cdev) 0
                             (freq_qos_update_request B tr (qos_req cdev) 0)]))"
    if b: "\<forall>x \<in> real_freqs table. f < x" for f
  proof (cases "cpufreq_state cdev = ?d")
    case True
    then show ?thesis using low[OF b] limit_device_same[of cdev f B tr] by simp
  next
    case False
    then show ?thesis using low[OF b] limit_device_change[of cdev f ?d B tr] zero by simp
  qed
  show ?thesis using dn dr some low zero dev scan_None_no_sentinel by blast
qed

theorem sentinel_slot_matches_witness:
  "\<not> distinct (valid_entries [1000, 1000, - 2])
    \<and> freq_table dup_dev = build_freq_table [1000, 1000, - 2]
    \<and> max_level dup_dev = length (valid_entries [1000, 1000, - 2]) - 1
    \<and> card (real_freqs [1000, 1000, - 2]) = 1
    \<and> drop 1 (freq_table dup_dev) = [0]
    \<and> find_level dup_dev 500 0 = Some 1
    \<and> limit_device ok_backend dup_dev 500 []
        = (dup_dev\<lparr>cpufreq_state := 1\<rparr>, [Qos_update 0 0 1])
    \<and> limit_device ok_backend (dup_dev\<lparr>cpufreq_state := 1\<rparr>) 500 []
        = (dup_dev\<lparr>cpufreq_state := 1\<rparr>, [])
    \<and> find_level example_dev 500 0 = None \<and> 0 \<notin> set (freq_table example_dev)"
proof -
  have v: "valid_entries [1000, 1000, - 2] = [1000, 1000]" by code_simp
  have h1: "\<not> distinct (valid_entries [1000, 1000, - 2])" by (simp add: v)
  have h2: "freq_table dup_dev = build_freq_table [1000, 1000, - 2]" by code_simp
  have h3: "max_level dup_dev = length (valid_entries [1000, 1000, - 2]) - 1"
    by (simp add: v dup_dev_def)
  have c: "card (real_freqs [1000, 1000, - 2]) = 1" by code_simp
  have r: "real_freqs [1000, 1000, - 2] = {1000}" by (simp add: real_freqs_def v)
  have f: "cpufreq_state dup_dev = 0" "qos_req dup_dev = 0"
    "freq_qos_update_request ok_backend [] 0 0 = 1"
    by (simp_all add: dup_dev_def ok_backend_def)
  note t = sentinel_slot_matches[OF h1 h2 h3, of ok_backend "[]"]
  have a: "drop 1 (freq_table dup_dev) = [0]" using t by (simp add: c v)
  have b: "find_level dup_dev 500 0 = Some 1
    \<and> limit_device ok_backend dup_dev 500 []
        = (dup_dev\<lparr>cpufreq_state := 1\<rparr>, [Qos_update 0 0 1])"
  proof -
    have "\<forall>x \<in> real_freqs [1000, 1000, - 2]. (500 :: u32) < x" by (simp add: r)
    then show ?thesis using t f c by simp
  qed
  have k2: "freq_table (dup_dev\<lparr>cpufreq_state := 1\<rparr>) = build_freq_table [1000, 1000, - 2]"
    using h2 by simp
  have k3: "max_level (dup_dev\<lparr>cpufreq_state := 1\<rparr>)
              = length (valid_entries [1000, 1000, - 2]) - 1"
    using h3 by simp
  have s: "limit_device ok_backend (dup_dev\<lparr>cpufreq_state := 1\<rparr>) 500 []
        = (dup_dev\<lparr>cpufreq_state := 1\<rparr>, [])"
  proof -
    have "\<forall>x \<in> real_freqs [1000, 1000, - 2]. (500 :: u32) < x" by (simp add: r)
    then show ?thesis using sentinel_slot_matches[OF h1 k2 k3, of ok_backend "[]"] c by simp
  qed
  have n: "find_level example_dev 500 0 = None" by code_simp
  have len: "length (freq_table example_dev) = Suc (max_level example_dev)"
    by (simp add: example_dev_def)
  have z: "0 \<notin> set (freq_table example_dev)" using t n len by blast
  show ?thesis using h1 h2 h3 c a b s n z by simp
qed

theorem sentinel_level_no_push_counterexample:
  "freq_table (hd (cpufreq_dev_list (snd (cpu_thermal_init dup_backend 0 empty_sys)))) = [1000, 0]
    \<and> trace (cpu_limits_set_level dup_backend 0 500 (snd (cpu_thermal_init dup_backend 0 empty_sys)))
        = [Qos_add 0 1000 1, List_add dup_dev, Qos_update 0 0 1]
    \<and> map cpufreq_state (cpufreq_dev_list
          (cpu_limits_set_level dup_backend 0 500 (snd (cpu_thermal_init dup_backend 0 empty_sys))))
        = [1]
    \<and> trace (cpu_limits_set_level dup_backend 0 500
          (cpu_limits_set_level dup_backend 0 500 (snd (cpu_thermal_init dup_backend 0 empty_sys))))
        = [Qos_add 0 1000 1, List_add dup_dev, Qos_update 0 0 1]"
  by code_simp

end
